theory Spec2Isabelle
  imports Main "HOL-Library.AList"
begin

section \<open>Python values\<close>

text \<open>
  A Python \<open>str\<close> is a sequence of Unicode code points, so it is modelled as a list of
  naturals; \<open>py\<close> turns an ASCII literal into that form.
\<close>

type_synonym pystr = "nat list"

definition py :: "string \<Rightarrow> pystr" where
  "py s = map of_char s"

definition nl :: nat where
  "nl = 10"

text \<open>
  Free-form values (JSON documents, metadata entries). A dict keeps its insertion order,
  so it is an association list; \<open>PFloat m e\<close> stands for the float \<open>m * 2 ^ e\<close>.
\<close>

datatype pyval =
    PNone
  | PBool bool
  | PInt int
  | PFloat int int
  | PStr pystr
  | PList "pyval list"
  | PDict "(pystr \<times> pyval) list"

type_synonym pydict = "(pystr \<times> pyval) list"

text \<open>
  A raised exception: whether it is an instance of \<open>Exception\<close> (what \<open>except Exception\<close>
  catches; \<open>CancelledError\<close> and \<open>KeyboardInterrupt\<close> are not), \<open>type(exc).__name__\<close> and
  \<open>str(exc)\<close>.
\<close>

datatype error = Raised (is_Exception: bool) (type_name: pystr) (str_of: pystr)

definition IndexError :: error where
  "IndexError = Raised True (py ''IndexError'') (py ''list index out of range'')"



definition TypeError :: "pystr \<Rightarrow> error" where
  "TypeError msg = Raised True (py ''TypeError'') msg"

text \<open>\<open>sep.join(parts)\<close>\<close>

fun join :: "pystr \<Rightarrow> pystr list \<Rightarrow> pystr" where
  "join sep [] = []"
| "join sep [x] = x"
| "join sep (x # y # ys) = x @ sep @ join sep (y # ys)"

text \<open>
  \<open>str.isspace\<close>: the code points that \<open>str.strip()\<close> removes and that \<open>\s\<close> matches in a
  \<open>str\<close> pattern (both read the same Unicode property).
\<close>

definition is_space :: "nat \<Rightarrow> bool" where
  "is_space c =
     (c \<in> set [9, 10, 11, 12, 13, 28, 29, 30, 31, 32, 133, 160, 5760,
                8232, 8233, 8239, 8287, 12288]
      \<or> (8192 \<le> c \<and> c \<le> 8202))"

definition lstrip :: "pystr \<Rightarrow> pystr" where
  "lstrip s = dropWhile is_space s"

definition rstrip :: "pystr \<Rightarrow> pystr" where
  "rstrip s = rev (dropWhile is_space (rev s))"

definition strip :: "pystr \<Rightarrow> pystr" where
  "strip s = lstrip (rstrip s)"

definition startswith :: "pystr \<Rightarrow> pystr \<Rightarrow> bool" where
  "startswith s p = (take (length p) s = p)"

text \<open>\<open>s.find(sub)\<close>: the lowest index where \<open>sub\<close> occurs, \<open>None\<close> for \<open>-1\<close>.\<close>

fun find_sub :: "pystr \<Rightarrow> pystr \<Rightarrow> nat option" where
  "find_sub [] sub = (if sub = [] then Some 0 else None)"
| "find_sub (c # cs) sub =
     (if startswith (c # cs) sub then Some 0 else map_option Suc (find_sub cs sub))"

text \<open>\<open>s.find(sub, pos)\<close> for \<open>pos \<ge> 0\<close>\<close>

definition find_from :: "pystr \<Rightarrow> pystr \<Rightarrow> nat \<Rightarrow> nat option" where
  "find_from s sub pos =
     (if length s < pos then None else map_option (\<lambda>i. pos + i) (find_sub (drop pos s) sub))"


text \<open>\<open>re.sub(r"\n{3,}", "\n\n", s)\<close>: every maximal run of three or more newlines becomes two.\<close>

function collapse_newlines :: "pystr \<Rightarrow> pystr" where
  "collapse_newlines [] = []"
| "collapse_newlines (c # cs) =
     (if c = nl
      then (if 2 \<le> length (takeWhile (\<lambda>x. x = nl) cs)
            then [nl, nl]
            else nl # takeWhile (\<lambda>x. x = nl) cs)
           @ collapse_newlines (dropWhile (\<lambda>x. x = nl) cs)
      else c # collapse_newlines cs)"
  by pat_completeness auto
termination
  by (relation "measure length") (auto simp: less_Suc_eq_le length_dropWhile_le)

text \<open>\<open>str(n)\<close> for an \<open>int\<close>\<close>

fun digits :: "nat \<Rightarrow> pystr" where
  "digits n = (if n < 10 then [48 + n] else digits (n div 10) @ [48 + n mod 10])"

declare digits.simps [simp del]

definition str_int :: "int \<Rightarrow> pystr" where
  "str_int i = (if i < 0 then 45 # digits (nat (- i)) else digits (nat i))"


section \<open>The message bus (nanobot/bus/queue.py)\<close>

text \<open>
  A message timestamp is a \<open>datetime\<close> or a \<open>str\<close>. The bus only ever reads a datetime
  through \<open>isoformat()\<close>, so a datetime is represented by that text.
\<close>

datatype timestamp = Datetime pystr | Text pystr

record InboundMessage =
  channel :: pystr
  sender_id :: pystr
  chat_id :: pystr
  content :: pystr
  timestamp :: timestamp
  media :: "pystr list"
  metadata :: "pydict option"

text \<open>
  Modelled from the spec: the class \<open>InboundMessage\<close> (nanobot/bus/events.py) is not among
  the sources; its derived attribute is \<open>session_key = channel + ":" + chat_id\<close>.
\<close>

definition session_key :: "InboundMessage \<Rightarrow> pystr" where
  "session_key msg = channel msg @ py '':'' @ chat_id msg"

fun timestamp_to_text :: "timestamp \<Rightarrow> pystr" where
  "timestamp_to_text (Datetime isoformat) = isoformat"
| "timestamp_to_text (Text s) = s"

text \<open>\<open>x or {}\<close> for an optional dict\<close>

fun or_empty :: "pydict option \<Rightarrow> pydict" where
  "or_empty None = []"
| "or_empty (Some d) = d"

definition collected_entry :: "InboundMessage \<Rightarrow> pyval" where
  "collected_entry msg = PDict
     [(py ''sender_id'', PStr (sender_id msg)),
      (py ''content'', PStr (content msg)),
      (py ''timestamp'', PStr (timestamp_to_text (timestamp msg))),
      (py ''media'', PList (map PStr (media msg))),
      (py ''metadata'', PDict (or_empty (metadata msg)))]"

definition prefixed :: "InboundMessage \<Rightarrow> pystr" where
  "prefixed msg = py ''['' @ sender_id msg @ py ''] '' @ content msg"

fun merge_buffered_messages :: "InboundMessage list \<Rightarrow> error + InboundMessage" where
  "merge_buffered_messages [] = Inl IndexError"
| "merge_buffered_messages (first # rest) =
     (let messages = first # rest;
          merged_content =
            (if length messages = 1 then content first
             else join [nl, nl] (map prefixed messages));
          merged_media = concat (map media messages);
          collected_messages = map collected_entry messages;
          merged_metadata =
            AList.update (py ''collected_count'') (PInt (int (length messages)))
              (AList.update (py ''collected_messages'') (PList collected_messages)
                 (or_empty (metadata first)))
      in Inr \<lparr>channel = channel first, sender_id = sender_id first, chat_id = chat_id first,
               content = merged_content, timestamp = timestamp first, media = merged_media,
               metadata = Some merged_metadata\<rparr>)"

text \<open>
  An \<open>asyncio.Future\<close> of the running event loop. Futures are shared between the bus and
  the task awaiting them, so they live in a store addressed by naturals.
\<close>

datatype future = Pending | Done bool "pystr option" | Cancelled

record EventLoop =
  next_future :: nat
  futures :: "nat \<Rightarrow> future"

definition create_future :: "EventLoop \<Rightarrow> nat \<times> EventLoop" where
  "create_future lp =
     (next_future lp,
      lp\<lparr>next_future := Suc (next_future lp),
         futures := (futures lp)(next_future lp := Pending)\<rparr>)"

definition future_done :: "future \<Rightarrow> bool" where
  "future_done f = (f \<noteq> Pending)"

definition set_result :: "nat \<Rightarrow> bool \<times> pystr option \<Rightarrow> EventLoop \<Rightarrow> EventLoop" where
  "set_result a r lp = lp\<lparr>futures := (futures lp)(a := Done (fst r) (snd r))\<rparr>"

text \<open>
  The state of a \<open>MessageBus\<close>: the inbound queue (head first), the waiters by request id,
  the active session and the per-session collect buffers. Every operation below runs
  without suspending once it holds the collect lock, so it is one atomic step.
\<close>

record MessageBus =
  inbound :: "InboundMessage list"
  outbound_waiters :: "pystr \<rightharpoonup> nat"
  active_inbound_session :: "pystr option"
  inbound_collect_buffer :: "pystr \<rightharpoonup> InboundMessage list"

definition init_bus :: MessageBus where
  "init_bus = \<lparr>inbound = [], outbound_waiters = Map.empty,
                active_inbound_session = None, inbound_collect_buffer = Map.empty\<rparr>"

text \<open>\<open>d.get(k, [])\<close> / \<open>d.setdefault(k, [])\<close> read\<close>

definition buffered :: "MessageBus \<Rightarrow> pystr \<Rightarrow> InboundMessage list" where
  "buffered bus k = (case inbound_collect_buffer bus k of None \<Rightarrow> [] | Some b \<Rightarrow> b)"

definition publish_inbound :: "InboundMessage \<Rightarrow> MessageBus \<Rightarrow> MessageBus" where
  "publish_inbound msg bus =
     (case active_inbound_session bus of
        Some a \<Rightarrow>
          if a \<noteq> [] \<and> session_key msg = a
          then bus\<lparr>inbound_collect_buffer :=
                     (inbound_collect_buffer bus)(session_key msg \<mapsto>
                        buffered bus (session_key msg) @ [msg])\<rparr>
          else bus\<lparr>inbound := inbound bus @ [msg]\<rparr>
      | None \<Rightarrow> bus\<lparr>inbound := inbound bus @ [msg]\<rparr>)"

text \<open>\<open>None\<close>: the queue is empty and the consumer stays suspended.\<close>

definition consume_inbound :: "MessageBus \<Rightarrow> (InboundMessage \<times> MessageBus) option" where
  "consume_inbound bus =
     (case inbound bus of
        [] \<Rightarrow> None
      | msg # rest \<Rightarrow>
          Some (msg, bus\<lparr>inbound := rest, active_inbound_session := Some (session_key msg)\<rparr>))"

definition complete_inbound_turn :: "InboundMessage \<Rightarrow> MessageBus \<Rightarrow> error + MessageBus" where
  "complete_inbound_turn msg bus =
     (if active_inbound_session bus \<noteq> Some (session_key msg) then Inr bus
      else
        let buf = buffered bus (session_key msg);
            bus1 = bus\<lparr>inbound_collect_buffer :=
                         (inbound_collect_buffer bus)(session_key msg := None)\<rparr>
        in if buf \<noteq> []
           then (case merge_buffered_messages buf of
                   Inl e \<Rightarrow> Inl e
                 | Inr merged \<Rightarrow>
                     Inr (bus1\<lparr>inbound := inbound bus1 @ [merged],
                               active_inbound_session := None\<rparr>))
           else Inr (bus1\<lparr>active_inbound_session := None\<rparr>))"

definition superseded :: pystr where
  "superseded = py ''superseded by a newer outbound request''"

definition create_outbound_waiter ::
  "pystr \<Rightarrow> EventLoop \<times> MessageBus \<Rightarrow> nat \<times> EventLoop \<times> MessageBus" where
  "create_outbound_waiter request_id st =
     (let (fut, lp1) = create_future (fst st);
          bus = snd st;
          old = outbound_waiters bus request_id;
          bus1 = bus\<lparr>outbound_waiters := (outbound_waiters bus)(request_id := None)\<rparr>;
          lp2 = (case old of
                   Some a \<Rightarrow>
                     if \<not> future_done (futures lp1 a)
                     then set_result a (False, Some superseded) lp1
                     else lp1
                 | None \<Rightarrow> lp1)
      in (fut, lp2, bus1\<lparr>outbound_waiters := (outbound_waiters bus1)(request_id \<mapsto> fut)\<rparr>))"

definition resolve_outbound_waiter ::
  "pystr option \<Rightarrow> bool \<Rightarrow> pystr option \<Rightarrow> EventLoop \<times> MessageBus \<Rightarrow> EventLoop \<times> MessageBus" where
  "resolve_outbound_waiter request_id success err st =
     (case request_id of
        None \<Rightarrow> st
      | Some rid \<Rightarrow>
          if rid = [] then st
          else
            let bus = snd st;
                bus1 = bus\<lparr>outbound_waiters := (outbound_waiters bus)(rid := None)\<rparr>
            in (case outbound_waiters bus rid of
                  Some a \<Rightarrow>
                    if \<not> future_done (futures (fst st) a)
                    then (set_result a (success, err) (fst st), bus1)
                    else (fst st, bus1)
                | None \<Rightarrow> (fst st, bus1)))"

definition discard_outbound_waiter :: "pystr option \<Rightarrow> MessageBus \<Rightarrow> MessageBus" where
  "discard_outbound_waiter request_id bus =
     (case request_id of
        None \<Rightarrow> bus
      | Some rid \<Rightarrow>
          if rid = [] then bus
          else bus\<lparr>outbound_waiters := (outbound_waiters bus)(rid := None)\<rparr>)"

text \<open>Every registered waiter is a future the loop has created.\<close>

definition waiters_allocated :: "EventLoop \<times> MessageBus \<Rightarrow> bool" where
  "waiters_allocated st =
     (\<forall>a \<in> ran (outbound_waiters (snd st)). a < next_future (fst st))"

text \<open>Sample values for the worked examples below.\<close>

definition ex_msg :: "string \<Rightarrow> string \<Rightarrow> string \<Rightarrow> InboundMessage" where
  "ex_msg sender chat text =
     \<lparr>channel = py ''chat'', sender_id = py sender, chat_id = py chat, content = py text,
      timestamp = Text (py ''2026-01-01T00:00:00''), media = [], metadata = None\<rparr>"

definition ex_loop :: EventLoop where
  "ex_loop = \<lparr>next_future = 1, futures = (\<lambda>_. Cancelled)(0 := Pending)\<rparr>"

definition ex_bus_waiting :: MessageBus where
  "ex_bus_waiting = init_bus\<lparr>outbound_waiters := [py ''out_1'' \<mapsto> 0]\<rparr>"

definition ex_bus_started :: MessageBus where
  "ex_bus_started = init_bus\<lparr>active_inbound_session := Some (py ''chat:c1'')\<rparr>"

section \<open>The provider adapter (nanobot/providers/litellm_provider.py)\<close>

text \<open>
  Modelled from the spec: \<open>ToolCallRequest\<close> and \<open>LLMResponse\<close> (nanobot/providers/base.py)
  are not among the sources. A tool call has an id, a name and arguments; a response has
  nullable content, a possibly empty list of tool calls (the default), a finish reason, a
  usage mapping and nullable reasoning content, and \<open>has_tool_calls\<close> says that the list is
  not empty. The name is optional here because the stream path can leave it \<open>None\<close>.
\<close>

record ToolCallRequest =
  tc_id :: pystr
  tc_name :: "pystr option"
  arguments :: pyval

record LLMResponse =
  resp_content :: "pystr option"
  tool_calls :: "ToolCallRequest list"
  finish_reason :: pystr
  usage :: pydict
  reasoning_content :: "pystr option"

definition has_tool_calls :: "LLMResponse \<Rightarrow> bool" where
  "has_tool_calls response = (tool_calls response \<noteq> [])"

text \<open>What a stream delivers: chunks, their first choice, its delta and tool-call fragments.\<close>

record FunctionDelta =
  fn_name :: "pystr option"
  fn_arguments :: "pystr option"

record ToolCallDelta =
  index :: int
  delta_id :: "pystr option"
  tc_function :: "FunctionDelta option"

record Choice =
  delta_content :: "pystr option"
  delta_reasoning_content :: "pystr option"
  delta_tool_calls :: "ToolCallDelta list"
  choice_finish_reason :: "pystr option"

record Chunk =
  choices :: "Choice list"
  chunk_usage :: "(pyval \<times> pyval \<times> pyval) option"

text \<open>What a non-stream completion delivers.\<close>

record RawToolCall =
  raw_id :: pystr
  raw_name :: "pystr option"
  raw_arguments :: "pystr + pyval"

record RawChoice =
  message_content :: "pystr option"
  message_tool_calls :: "RawToolCall list"
  message_reasoning_content :: "pystr option"
  raw_finish_reason :: "pystr option"

record RawResponse =
  raw_choices :: "RawChoice list"
  raw_usage :: "(pyval \<times> pyval \<times> pyval) option"

text \<open>
  The world outside the adapter: \<open>json.loads\<close> and \<open>JSONDecoder.raw_decode\<close> (\<open>None\<close> when
  they raise \<open>JSONDecodeError\<close>), the hex digits of the successive \<open>uuid4()\<close> values, which
  code points from 128 on are alphanumeric (\<open>str.isalnum\<close>; none of them is whitespace),
  and what \<open>acompletion\<close> does in each mode: it raises (at the call or while the stream is
  read), or it delivers the whole stream or the completion.
\<close>

record ProviderEnv =
  json_loads :: "pystr \<Rightarrow> pyval option"
  raw_decode :: "pystr \<Rightarrow> (pyval \<times> nat) option"
  uuid_hex12 :: "nat \<Rightarrow> pystr"
  unicode_alnum :: "nat \<Rightarrow> bool"
  acompletion_stream :: "error + Chunk list"
  acompletion_non_stream :: "error + RawResponse"

text \<open>One entry of \<open>tool_calls_map\<close>\<close>

record ToolCallEntry =
  entry_id :: pystr
  entry_name :: "pystr option"
  entry_arguments :: pystr

text \<open>\<open>x or ""\<close> and the truth value of an optional string\<close>

fun or_empty_str :: "pystr option \<Rightarrow> pystr" where
  "or_empty_str None = []"
| "or_empty_str (Some s) = s"

fun nonempty :: "pystr option \<Rightarrow> bool" where
  "nonempty None = False"
| "nonempty (Some s) = (s \<noteq> [])"

definition merge_tool_call_delta ::
  "ToolCallDelta \<Rightarrow> (int \<times> ToolCallEntry) list \<Rightarrow> (int \<times> ToolCallEntry) list" where
  "merge_tool_call_delta tc tool_calls_map =
     (let idx = index tc;
          m1 = (if map_of tool_calls_map idx = None
                then AList.update idx
                       \<lparr>entry_id = or_empty_str (delta_id tc),
                        entry_name = (case tc_function tc of Some f \<Rightarrow> fn_name f | None \<Rightarrow> Some []),
                        entry_arguments = []\<rparr> tool_calls_map
                else tool_calls_map);
          m2 = (if nonempty (delta_id tc)
                then AList.map_entry idx (\<lambda>e. e\<lparr>entry_id := or_empty_str (delta_id tc)\<rparr>) m1
                else m1)
      in case tc_function tc of
           None \<Rightarrow> m2
         | Some f \<Rightarrow>
             let m3 = (if nonempty (fn_name f)
                       then AList.map_entry idx (\<lambda>e. e\<lparr>entry_name := fn_name f\<rparr>) m2
                       else m2)
             in if nonempty (fn_arguments f)
                then AList.map_entry idx
                       (\<lambda>e. e\<lparr>entry_arguments :=
                                 entry_arguments e @ or_empty_str (fn_arguments f)\<rparr>) m3
                else m3)"

record StreamState =
  content_parts :: "pystr list"
  tool_calls_map :: "(int \<times> ToolCallEntry) list"
  stream_finish_reason :: pystr
  stream_usage :: pydict
  reasoning_parts :: "pystr list"

definition init_stream :: StreamState where
  "init_stream = \<lparr>content_parts = [], tool_calls_map = [], stream_finish_reason = py ''stop'',
                   stream_usage = [], reasoning_parts = []\<rparr>"

definition usage_dict :: "pyval \<times> pyval \<times> pyval \<Rightarrow> pydict" where
  "usage_dict u = [(py ''prompt_tokens'', fst u), (py ''completion_tokens'', fst (snd u)),
                   (py ''total_tokens'', snd (snd u))]"

text \<open>The body of the \<open>async for\<close> loop of \<open>_stream_chat\<close>\<close>

definition stream_step :: "Chunk \<Rightarrow> StreamState \<Rightarrow> StreamState" where
  "stream_step chunk st =
     (case choices chunk of
        [] \<Rightarrow> st
      | choice # _ \<Rightarrow>
          let st1 = (if nonempty (delta_content choice)
                     then st\<lparr>content_parts :=
                               content_parts st @ [or_empty_str (delta_content choice)]\<rparr>
                     else st);
              st2 = (if nonempty (delta_reasoning_content choice)
                     then st1\<lparr>reasoning_parts :=
                                reasoning_parts st1 @ [or_empty_str (delta_reasoning_content choice)]\<rparr>
                     else st1);
              st3 = st2\<lparr>tool_calls_map :=
                           fold merge_tool_call_delta (delta_tool_calls choice) (tool_calls_map st2)\<rparr>;
              st4 = (if nonempty (choice_finish_reason choice)
                     then st3\<lparr>stream_finish_reason := or_empty_str (choice_finish_reason choice)\<rparr>
                     else st3)
          in case chunk_usage chunk of
               Some u \<Rightarrow> st4\<lparr>stream_usage := usage_dict u\<rparr>
             | None \<Rightarrow> st4)"

definition decode_arguments :: "ProviderEnv \<Rightarrow> pystr \<Rightarrow> pyval" where
  "decode_arguments env args =
     (case json_loads env args of
        Some v \<Rightarrow> v
      | None \<Rightarrow> PDict [(py ''raw'', PStr args)])"

text \<open>The final pass: one \<open>ToolCallRequest\<close> per index, in sorted index order.\<close>

definition build_tool_calls ::
  "ProviderEnv \<Rightarrow> (int \<times> ToolCallEntry) list \<Rightarrow> ToolCallRequest list" where
  "build_tool_calls env entries =
     concat (map (\<lambda>idx. case map_of entries idx of
                           None \<Rightarrow> []
                         | Some tc_data \<Rightarrow>
                             [\<lparr>tc_id = entry_id tc_data, tc_name = entry_name tc_data,
                               arguments = decode_arguments env (entry_arguments tc_data)\<rparr>])
                 (sort (map fst entries)))"

definition join_parts :: "pystr list \<Rightarrow> pystr option" where
  "join_parts parts = (if parts = [] then None else Some (concat parts))"

text \<open>
  \<open>sep.join(names)\<close> for names that may be \<open>None\<close>: the first item that is not a string
  raises \<open>TypeError\<close>, which names its position.
\<close>

definition join_names :: "pystr \<Rightarrow> pystr option list \<Rightarrow> error + pystr" where
  "join_names sep names =
     (if None \<in> set names
      then Inl (TypeError
                  (py ''sequence item ''
                   @ str_int (int (length (takeWhile (\<lambda>x. x \<noteq> None) names)))
                   @ py '': expected str instance, NoneType found''))
      else Inr (join sep (map or_empty_str names)))"

text \<open>
  \<open>_log_response_summary\<close> only writes to the log, but it joins the names of the first five
  tool calls, which raises \<open>TypeError\<close> when one of them is \<open>None\<close>.
\<close>

definition log_response_summary :: "LLMResponse \<Rightarrow> error option" where
  "log_response_summary response =
     (if has_tool_calls response
      then (case join_names (py '', '') (map tc_name (take 5 (tool_calls response))) of
              Inl e \<Rightarrow> Some e
            | Inr names \<Rightarrow> None)
      else None)"

subsection \<open>Textual tool calls in stream text\<close>

definition token :: pystr where
  "token = py ''[tool_call]''"

definition ascii_alpha_us :: "nat \<Rightarrow> bool" where
  "ascii_alpha_us c = ((65 \<le> c \<and> c \<le> 90) \<or> (97 \<le> c \<and> c \<le> 122) \<or> c = 95)"

text \<open>\<open>\w\<close> in a \<open>str\<close> pattern: alphanumeric or underscore.\<close>

definition is_word :: "ProviderEnv \<Rightarrow> nat \<Rightarrow> bool" where
  "is_word env c =
     (if c < 128 then ascii_alpha_us c \<or> (48 \<le> c \<and> c \<le> 57) else unicode_alnum env c)"

text \<open>
  \<open>re.match(r"\s*([A-Za-z_]\w*)\s*\(", s)\<close>: the name and the end of the match. The classes
  \<open>\s\<close>, \<open>\w\<close> and the parenthesis exclude each other, so the greedy match is the only one.
\<close>

definition match_header :: "ProviderEnv \<Rightarrow> pystr \<Rightarrow> (pystr \<times> nat) option" where
  "match_header env s =
     (case dropWhile is_space s of
        [] \<Rightarrow> None
      | c # r \<Rightarrow>
          if \<not> ascii_alpha_us c then None
          else (case dropWhile is_space (dropWhile (is_word env) r) of
                  [] \<Rightarrow> None
                | d # rest \<Rightarrow>
                    if d = 40 then Some (c # takeWhile (is_word env) r, length s - length rest)
                    else None))"

text \<open>
  One pass of the loop body of \<open>_coerce_stream_text_tool_calls\<close> for the marker found at
  \<open>start\<close>: the name, the decoded arguments and the end of the span, or \<open>None\<close> where the
  source continues with the next marker.
\<close>

definition parse_tool_call_at ::
  "ProviderEnv \<Rightarrow> pystr \<Rightarrow> nat \<Rightarrow> (pystr \<times> pyval \<times> nat) option" where
  "parse_tool_call_at env body start =
     (let idx0 = start + length token in
      case match_header env (drop idx0 body) of
        None \<Rightarrow> None
      | Some (name, header_end) \<Rightarrow>
          let idx1 = idx0 + header_end;
              tail = lstrip (drop idx1 body);
              idx2 = idx1 + (length (drop idx1 body) - length tail)
          in if \<not> startswith tail (py ''{'') then None
             else (case raw_decode env tail of
                     None \<Rightarrow> None
                   | Some (args_obj, consumed) \<Rightarrow>
                       let idx3 = idx2 + consumed;
                           trailing = lstrip (drop idx3 body);
                           idx4 = idx3 + (length (drop idx3 body) - length trailing)
                       in if length body \<le> idx4 \<or> body ! idx4 \<noteq> 41 then None
                          else Some (name, args_obj, idx4 + 1)))"

lemma startswith_length: "startswith s p \<Longrightarrow> length p \<le> length s"
proof -
  assume "startswith s p"
  then have "length (take (length p) s) = length p"
    by (simp add: startswith_def)
  then show ?thesis by simp
qed

lemma find_sub_bounds: "find_sub s sub = Some i \<Longrightarrow> i + length sub \<le> length s"
proof (induction s arbitrary: i)
  case Nil
  then show ?case by (simp split: if_splits)
next
  case (Cons c cs)
  show ?case
  proof (cases "startswith (c # cs) sub")
    case True
    then have "length sub \<le> length (c # cs)"
      by (rule startswith_length)
    with True Cons.prems show ?thesis by simp
  next
    case False
    with Cons.prems obtain j where "find_sub cs sub = Some j" "i = Suc j" by auto
    with Cons.IH show ?thesis by simp
  qed
qed

lemma find_from_bounds:
  "find_from s sub pos = Some i \<Longrightarrow> pos \<le> i \<and> i + length sub \<le> length s"
proof -
  assume a: "find_from s sub pos = Some i"
  then have le: "pos \<le> length s"
    by (simp add: find_from_def split: if_splits)
  from a le obtain j where j: "find_sub (drop pos s) sub = Some j" "i = pos + j"
    by (auto simp: find_from_def)
  from find_sub_bounds [OF j(1)] le j(2) show ?thesis by simp
qed

lemma length_token: "length token = 11"
  by (simp add: token_def py_def)

lemma parse_tool_call_at_end:
  "parse_tool_call_at env body start = Some (name, args, e) \<Longrightarrow>
     start + length token < e \<and> e \<le> length body"
  unfolding parse_tool_call_at_def Let_def
  by (simp split: option.splits if_splits prod.splits)


definition make_text_tool_call :: "ProviderEnv \<Rightarrow> nat \<Rightarrow> pystr \<Rightarrow> pyval \<Rightarrow> ToolCallRequest" where
  "make_text_tool_call env k name args_obj =
     \<lparr>tc_id = py ''text_toolcall_'' @ uuid_hex12 env k,
      tc_name = Some name,
      arguments = (case args_obj of PDict d \<Rightarrow> PDict d | _ \<Rightarrow> PDict [(py ''raw'', args_obj)])\<rparr>"

text \<open>
  The \<open>while True\<close> loop from position \<open>pos\<close>, with \<open>k\<close> calls found so far: the spans and the
  calls, in the order found.
\<close>

function scan_tool_calls ::
  "ProviderEnv \<Rightarrow> pystr \<Rightarrow> nat \<Rightarrow> nat \<Rightarrow> ((nat \<times> nat) \<times> ToolCallRequest) list" where
  "scan_tool_calls env body pos k =
     (case find_from body token pos of
        None \<Rightarrow> []
      | Some start \<Rightarrow>
          (case parse_tool_call_at env body start of
             None \<Rightarrow> scan_tool_calls env body (start + length token) k
           | Some (name, args_obj, stop) \<Rightarrow>
               ((start, stop), make_text_tool_call env k name args_obj)
                 # scan_tool_calls env body stop (Suc k)))"
  by pat_completeness auto
termination
proof (relation "measure (\<lambda>(env, body, pos, k). Suc (length body) - pos)", goal_cases)
  case 1
  show ?case by simp
next
  case (2 env body pos k start)
  have "pos \<le> start \<and> start + length token \<le> length body"
    using 2(1) by (rule find_from_bounds)
  then have "pos \<le> start" "start + 11 \<le> length body"
    by (simp_all add: length_token)
  then have "Suc (length body) - (start + 11) < Suc (length body) - pos"
    by arith
  then show ?case by (simp add: length_token)
next
  case (3 env body pos k start x name rest args_obj e)
  have a: "pos \<le> start \<and> start + length token \<le> length body"
    using 3(1) by (rule find_from_bounds)
  have "parse_tool_call_at env body start = Some (name, args_obj, e)"
    using 3 by simp
  then have "start + length token < e \<and> e \<le> length body"
    by (rule parse_tool_call_at_end)
  with a have "Suc (length body) - e < Suc (length body) - pos"
    by arith
  then show ?case by simp
qed

text \<open>The text outside the spans: \<open>body[cursor:start]\<close> for each span, then the rest.\<close>

fun cut_spans :: "pystr \<Rightarrow> nat \<Rightarrow> (nat \<times> nat) list \<Rightarrow> pystr" where
  "cut_spans body cursor [] = drop cursor body"
| "cut_spans body cursor ((start, stop) # spans) =
     take (start - cursor) (drop cursor body) @ cut_spans body stop spans"

definition coerce_stream_text_tool_calls ::
  "ProviderEnv \<Rightarrow> pystr option \<Rightarrow> pystr option \<times> ToolCallRequest list" where
  "coerce_stream_text_tool_calls env opt_text =
     (case opt_text of
        None \<Rightarrow> (opt_text, [])
      | Some s \<Rightarrow>
          if s = [] \<or> find_sub s token = None then (opt_text, [])
          else
            let found = scan_tool_calls env s 0 0;
                calls = map snd found
            in if calls = [] then (opt_text, [])
               else
                 let cleaned = strip (collapse_newlines (cut_spans s 0 (map fst found)))
                 in (if cleaned = [] then None else Some cleaned, calls))"

subsection \<open>Stream and non-stream calls, and the fallback between them\<close>

definition stream_chat :: "ProviderEnv \<Rightarrow> error + LLMResponse" where
  "stream_chat env =
     (case acompletion_stream env of
        Inl e \<Rightarrow> Inl e
      | Inr chunks \<Rightarrow>
          let st = fold stream_step chunks init_stream;
              structured = build_tool_calls env (tool_calls_map st);
              content = join_parts (content_parts st);
              coerced = coerce_stream_text_tool_calls env content;
              response =
                \<lparr>resp_content = (if structured = [] then fst coerced else content),
                 tool_calls = (if structured = [] \<and> snd coerced \<noteq> [] then snd coerced
                               else structured),
                 finish_reason = stream_finish_reason st,
                 usage = stream_usage st,
                 reasoning_content = join_parts (reasoning_parts st)\<rparr>
          in case log_response_summary response of
               Some e \<Rightarrow> Inl e
             | None \<Rightarrow> Inr response)"

definition parse_response :: "ProviderEnv \<Rightarrow> RawResponse \<Rightarrow> error + LLMResponse" where
  "parse_response env response =
     (case raw_choices response of
        [] \<Rightarrow> Inl IndexError
      | choice # _ \<Rightarrow>
          Inr \<lparr>resp_content = message_content choice,
               tool_calls =
                 map (\<lambda>tc. \<lparr>tc_id = raw_id tc, tc_name = raw_name tc,
                             arguments = (case raw_arguments tc of
                                            Inl args \<Rightarrow> decode_arguments env args
                                          | Inr args \<Rightarrow> args)\<rparr>)
                     (message_tool_calls choice),
               finish_reason = (if nonempty (raw_finish_reason choice)
                                then or_empty_str (raw_finish_reason choice) else py ''stop''),
               usage = (case raw_usage response of Some u \<Rightarrow> usage_dict u | None \<Rightarrow> []),
               reasoning_content = message_reasoning_content choice\<rparr>)"

definition non_stream_chat :: "ProviderEnv \<Rightarrow> error + LLMResponse" where
  "non_stream_chat env =
     (case acompletion_non_stream env of
        Inl e \<Rightarrow> Inl e
      | Inr response \<Rightarrow>
          (case parse_response env response of
             Inl e \<Rightarrow> Inl e
           | Inr parsed \<Rightarrow>
               (case log_response_summary parsed of
                  Some e \<Rightarrow> Inl e
                | None \<Rightarrow> Inr parsed)))"

definition format_exception :: "error \<Rightarrow> pystr" where
  "format_exception exc =
     (let name = type_name exc; msg = strip (str_of exc)
      in if msg \<noteq> [] then name @ py '': '' @ msg else name)"

text \<open>
  \<open>chat\<close>: the call in the default mode, one retry in the other mode when that raised an
  \<open>Exception\<close>, and the error response when the retry raised one too. What \<open>except
  Exception\<close> does not catch leaves \<open>chat\<close> as it was raised.
\<close>

definition chat :: "bool \<Rightarrow> ProviderEnv \<Rightarrow> error + LLMResponse" where
  "chat default_stream env =
     (case (if default_stream then stream_chat env else non_stream_chat env) of
        Inr response \<Rightarrow> Inr response
      | Inl e \<Rightarrow>
          if \<not> is_Exception e then Inl e
          else (case (if default_stream then non_stream_chat env else stream_chat env) of
                  Inr response \<Rightarrow> Inr response
                | Inl fallback_e \<Rightarrow>
                    if \<not> is_Exception fallback_e then Inl fallback_e
                    else Inr \<lparr>resp_content =
                                 Some (py ''Error calling LLM: '' @ format_exception fallback_e),
                               tool_calls = [], finish_reason = py ''error'', usage = [],
                               reasoning_content = None\<rparr>))"

subsection \<open>Sample values\<close>

definition ex_failing_env :: "pystr \<Rightarrow> ProviderEnv" where
  "ex_failing_env stream_message =
     \<lparr>json_loads = (\<lambda>s. None), raw_decode = (\<lambda>s. None), uuid_hex12 = (\<lambda>k. []),
      unicode_alnum = (\<lambda>c. False),
      acompletion_stream = Inl (Raised True (py ''ValueError'') stream_message),
      acompletion_non_stream = Inl (Raised True (py ''RuntimeError'') (py ''primary request failed''))\<rparr>"

subsection \<open>The merge of tool-call fragments, as specified\<close>

text \<open>
  The merge in the words of the specification. The fragments of a stream are the
  tool-call fragments of the first choice of its chunks, in arrival order. For one index,
  the merged arguments are the concatenation of the fragments' argument strings, and the
  merged id and name are the last non-empty values a fragment provided; where none did,
  the id is empty and the name is what the first fragment carried (empty when it had no
  function object).
\<close>

definition chunk_fragments :: "Chunk \<Rightarrow> ToolCallDelta list" where
  "chunk_fragments chunk = (case choices chunk of [] \<Rightarrow> [] | choice # _ \<Rightarrow> delta_tool_calls choice)"

definition stream_fragments :: "Chunk list \<Rightarrow> ToolCallDelta list" where
  "stream_fragments chunks = concat (map chunk_fragments chunks)"

definition fragment_arguments :: "ToolCallDelta \<Rightarrow> pystr" where
  "fragment_arguments tc =
     (case tc_function tc of None \<Rightarrow> [] | Some f \<Rightarrow> or_empty_str (fn_arguments f))"

definition fragment_name :: "ToolCallDelta \<Rightarrow> pystr option" where
  "fragment_name tc = (case tc_function tc of None \<Rightarrow> None | Some f \<Rightarrow> fn_name f)"

definition last_nonempty :: "pystr option list \<Rightarrow> pystr option" where
  "last_nonempty xs = (if filter nonempty xs = [] then None else last (filter nonempty xs))"

definition with_index :: "int \<Rightarrow> ToolCallDelta list \<Rightarrow> ToolCallDelta list" where
  "with_index i frs = filter (\<lambda>tc. index tc = i) frs"

definition merged_arguments_of :: "ToolCallDelta list \<Rightarrow> pystr" where
  "merged_arguments_of fs = concat (map fragment_arguments fs)"

definition merged_id_of :: "ToolCallDelta list \<Rightarrow> pystr" where
  "merged_id_of fs = or_empty_str (last_nonempty (map delta_id fs))"

definition merged_name_of :: "ToolCallDelta list \<Rightarrow> pystr option" where
  "merged_name_of fs =
     (case last_nonempty (map fragment_name fs) of
        Some n \<Rightarrow> Some n
      | None \<Rightarrow>
          (case fs of
             [] \<Rightarrow> None
           | first # _ \<Rightarrow>
               (case tc_function first of None \<Rightarrow> Some [] | Some f \<Rightarrow> fn_name f)))"

definition merged_arguments :: "ToolCallDelta list \<Rightarrow> int \<Rightarrow> pystr" where
  "merged_arguments frs i = merged_arguments_of (with_index i frs)"

definition merged_id :: "ToolCallDelta list \<Rightarrow> int \<Rightarrow> pystr" where
  "merged_id frs i = merged_id_of (with_index i frs)"

definition merged_name :: "ToolCallDelta list \<Rightarrow> int \<Rightarrow> pystr option" where
  "merged_name frs i = merged_name_of (with_index i frs)"

definition merged_entry :: "ToolCallDelta list \<Rightarrow> int \<Rightarrow> ToolCallEntry" where
  "merged_entry frs i =
     \<lparr>entry_id = merged_id frs i, entry_name = merged_name frs i,
      entry_arguments = merged_arguments frs i\<rparr>"

text \<open>What one fragment does to the entry of its index\<close>

definition step_entry :: "ToolCallDelta \<Rightarrow> ToolCallEntry option \<Rightarrow> ToolCallEntry" where
  "step_entry tc eo =
     (let e0 = (case eo of
                  None \<Rightarrow> \<lparr>entry_id = or_empty_str (delta_id tc),
                             entry_name = (case tc_function tc of Some f \<Rightarrow> fn_name f
                                           | None \<Rightarrow> Some []),
                             entry_arguments = []\<rparr>
                | Some e \<Rightarrow> e);
          e1 = (if nonempty (delta_id tc) then e0\<lparr>entry_id := or_empty_str (delta_id tc)\<rparr> else e0);
          e2 = (if nonempty (fragment_name tc) then e1\<lparr>entry_name := fragment_name tc\<rparr> else e1)
      in e2\<lparr>entry_arguments := entry_arguments e2 @ fragment_arguments tc\<rparr>)"

definition ex_args_head :: pystr where
  \<open>ex_args_head = py ''{"x":''\<close>

definition ex_args_tail :: pystr where
  \<open>ex_args_tail = py ''"y"}''\<close>

definition ex_args_value :: pyval where
  "ex_args_value = PDict [(py ''x'', PStr (py ''y''))]"

definition ex_stream_env :: ProviderEnv where
  "ex_stream_env =
     \<lparr>json_loads = (\<lambda>s. if s = ex_args_head @ ex_args_tail then Some ex_args_value else None),
      raw_decode = (\<lambda>s. None), uuid_hex12 = (\<lambda>k. []), unicode_alnum = (\<lambda>c. False),
      acompletion_stream =
        Inr [\<lparr>choices =
                [\<lparr>delta_content = Some (py ''Hello''), delta_reasoning_content = Some (py ''r1-''),
                  delta_tool_calls =
                    [\<lparr>index = 0, delta_id = Some (py ''call_1''),
                      tc_function = Some \<lparr>fn_name = Some (py ''message''),
                                           fn_arguments = Some ex_args_head\<rparr>\<rparr>],
                  choice_finish_reason = None\<rparr>],
              chunk_usage = None\<rparr>,
             \<lparr>choices =
                [\<lparr>delta_content = Some (py '' world''), delta_reasoning_content = Some (py ''r2''),
                  delta_tool_calls =
                    [\<lparr>index = 0, delta_id = None,
                      tc_function = Some \<lparr>fn_name = None, fn_arguments = Some ex_args_tail\<rparr>\<rparr>],
                  choice_finish_reason = Some (py ''tool_calls'')\<rparr>],
              chunk_usage = Some (PInt 10, PInt 3, PInt 13)\<rparr>],
      acompletion_non_stream = Inl (Raised True (py ''RuntimeError'') (py ''primary request failed''))\<rparr>"

text \<open>
  A stream holding a tool call that no fragment names: one chunk, one fragment of index 0
  with an id and a function object whose name is \<open>None\<close>.
\<close>

definition ex_unnamed_chunks :: "Chunk list" where
  "ex_unnamed_chunks =
     [\<lparr>choices =
         [\<lparr>delta_content = None, delta_reasoning_content = None,
           delta_tool_calls =
             [\<lparr>index = 0, delta_id = Some (py ''call_1''),
               tc_function = Some \<lparr>fn_name = None, fn_arguments = Some (py ''{}'')\<rparr>\<rparr>],
           choice_finish_reason = Some (py ''tool_calls'')\<rparr>],
       chunk_usage = None\<rparr>]"

definition ex_unnamed_env :: ProviderEnv where
  "ex_unnamed_env =
     \<lparr>json_loads = (\<lambda>s. if s = py ''{}'' then Some (PDict []) else None),
      raw_decode = (\<lambda>s. None), uuid_hex12 = (\<lambda>k. []), unicode_alnum = (\<lambda>c. False),
      acompletion_stream = Inr ex_unnamed_chunks,
      acompletion_non_stream = Inl (Raised True (py ''RuntimeError'') (py ''primary request failed''))\<rparr>"

section \<open>The agent loop (nanobot/agent/loop.py)\<close>

text \<open>
  The configuration an \<open>AgentLoop\<close> keeps: the constructor stores \<open>max_iterations\<close> and
  \<open>memory_window\<close> as given and \<open>max(1, compression_window_size)\<close>.
\<close>

record AgentLoop =
  max_iterations :: int
  memory_window :: int
  compression_window_size :: int

definition AgentLoop_init :: "int \<Rightarrow> int \<Rightarrow> int \<Rightarrow> AgentLoop" where
  "AgentLoop_init max_iters window compression =
     \<lparr>max_iterations = max_iters, memory_window = window,
      compression_window_size = max 1 compression\<rparr>"

definition CONSOLIDATION_COOLDOWN_S :: int where
  "CONSOLIDATION_COOLDOWN_S = 15 * 60"

definition CONSOLIDATION_HARD_LIMIT :: int where
  "CONSOLIDATION_HARD_LIMIT = 30"

text \<open>
  Modelled from the spec: \<open>Session\<close> and its message records (nanobot/session/manager.py)
  are not among the sources. A session has a key, an ordered sequence of messages and the
  watermarks \<open>last_consolidated\<close> and \<open>last_consolidated_at\<close> (ISO text, or \<open>None\<close>); a message
  has a role, nullable content, a timestamp (absent in old records) and an optional
  \<open>tools_used\<close> summary.
\<close>

datatype role = User | Assistant | Tool | System

record SessionMessage =
  msg_role :: role
  msg_content :: "pystr option"
  msg_timestamp :: "pystr option"
  msg_tools_used :: "pystr list option"

record Session =
  key :: pystr
  messages :: "SessionMessage list"
  last_consolidated :: int
  last_consolidated_at :: "pystr option"

text \<open>
  The clock. A naive \<open>datetime\<close> is the number of microseconds it stands for, which is what
  \<open>datetime\<close> arithmetic computes with; \<open>fromisoformat\<close> parses ISO text (\<open>None\<close> for
  \<open>ValueError\<close>), \<open>now\<close> is \<open>datetime.now()\<close> and \<open>now_isoformat\<close> its \<open>isoformat()\<close>.
\<close>

record Clock =
  fromisoformat :: "pystr \<Rightarrow> int option"
  now :: int
  now_isoformat :: pystr

definition compression_keep_count :: "AgentLoop \<Rightarrow> int" where
  "compression_keep_count self = max 1 (memory_window self div 2)"

definition parse_iso_datetime :: "Clock \<Rightarrow> pystr option \<Rightarrow> int option" where
  "parse_iso_datetime clock v =
     (case v of
        None \<Rightarrow> None
      | Some s \<Rightarrow> if s = [] then None else fromisoformat clock s)"

text \<open>
  \<open>timedelta.total_seconds() >= s\<close> for a difference of \<open>d\<close> microseconds and an integer \<open>s\<close>:
  the float \<open>d / 10^6\<close> is rounded monotonically and \<open>s\<close> is a float, so the comparison is
  that of the exact values.
\<close>

definition total_seconds_ge :: "int \<Rightarrow> int \<Rightarrow> bool" where
  "total_seconds_ge d s = (s * 1000000 \<le> d)"

definition should_schedule_consolidation :: "Clock \<Rightarrow> AgentLoop \<Rightarrow> Session \<Rightarrow> bool" where
  "should_schedule_consolidation clock self session =
     (let keep_count = compression_keep_count self;
          total_messages = int (length (messages session))
      in if total_messages \<le> keep_count then False
         else
           let compress_end = total_messages - keep_count;
               delta = compress_end - last_consolidated session
           in if delta \<le> 0 then False
              else if CONSOLIDATION_HARD_LIMIT \<le> delta then True
              else if compression_window_size self \<le> delta then True
              else (case parse_iso_datetime clock (last_consolidated_at session) of
                      None \<Rightarrow> False
                    | Some last_at \<Rightarrow>
                        total_seconds_ge (now clock - last_at) CONSOLIDATION_COOLDOWN_S))"

text \<open>
  The trigger policy in the words of the specification: with \<open>keep = max(1, memory_window / 2)\<close>,
  \<open>compress_end = total - keep\<close> and \<open>delta = compress_end - last_consolidated\<close>, consolidation
  fires when \<open>delta > 0\<close> and \<open>delta \<ge> 30\<close>, or \<open>delta \<ge> compression_window_size\<close>, or fifteen
  minutes have passed since \<open>last_consolidated_at\<close> (\<open>since\<close> is that time in microseconds,
  \<open>None\<close> when there is none).
\<close>

definition consolidation_fires ::
  "int \<Rightarrow> int \<Rightarrow> int \<Rightarrow> int \<Rightarrow> int option \<Rightarrow> int \<Rightarrow> bool" where
  "consolidation_fires window compression n_total watermark since current =
     (let keep = max 1 (window div 2);
          compress_end = n_total - keep;
          delta = compress_end - watermark
      in 0 < delta \<and>
         (30 \<le> delta \<or> compression \<le> delta \<or>
          (case since of
             None \<Rightarrow> False
           | Some t \<Rightarrow> 15 * 60 * 1000000 \<le> current - t)))"

definition ex_clock :: Clock where
  "ex_clock = \<lparr>fromisoformat = (\<lambda>s. if s = py ''2026-01-01T00:00:00'' then Some 0 else None),
               now = 1000000000, now_isoformat = py ''2026-01-01T00:16:40''\<rparr>"

definition ex_session_message :: SessionMessage where
  "ex_session_message =
     \<lparr>msg_role = User, msg_content = Some (py ''hi''),
      msg_timestamp = Some (py ''2026-01-01T00:00:00''), msg_tools_used = None\<rparr>"

definition ex_session :: "nat \<Rightarrow> int \<Rightarrow> Session" where
  "ex_session n watermark =
     \<lparr>key = py ''chat:c1'', messages = replicate n ex_session_message,
      last_consolidated = watermark, last_consolidated_at = Some (py ''2026-01-01T00:00:00'')\<rparr>"

subsection \<open>The tool-calling loop\<close>

text \<open>
  What the loop calls: the provider's \<open>chat\<close> (the \<open>i\<close>-th call of the run, with the messages
  sent; it may raise), the tool registry's \<open>execute\<close> (the \<open>n\<close>-th execution of the run) and
  \<open>json.dumps\<close> with and without \<open>ensure_ascii\<close>.
  Modelled from the spec: the registry (nanobot/agent/tools/registry.py) is not among the
  sources; its \<open>execute\<close> never raises and returns a text.
\<close>

record AgentEnv =
  provider_chat :: "nat \<Rightarrow> pyval list \<Rightarrow> error + LLMResponse"
  tools_execute :: "nat \<Rightarrow> pystr option \<Rightarrow> pyval \<Rightarrow> pystr"
  json_dumps :: "pyval \<Rightarrow> pystr"
  json_dumps_unicode :: "pyval \<Rightarrow> pystr"

fun opt_str :: "pystr option \<Rightarrow> pyval" where
  "opt_str None = PNone"
| "opt_str (Some s) = PStr s"

text \<open>\<open>ContextBuilder.add_assistant_message\<close> and \<open>add_tool_result\<close> (nanobot/agent/context.py)\<close>

definition add_assistant_message ::
  "pyval list \<Rightarrow> pystr option \<Rightarrow> pyval list \<Rightarrow> pystr option \<Rightarrow> pyval list" where
  "add_assistant_message msgs text tool_call_dicts reasoning =
     msgs @ [PDict ([(py ''role'', PStr (py ''assistant''))]
                    @ (if nonempty text then [(py ''content'', opt_str text)] else [])
                    @ (if tool_call_dicts \<noteq> [] then [(py ''tool_calls'', PList tool_call_dicts)]
                       else [])
                    @ (if nonempty reasoning then [(py ''reasoning_content'', opt_str reasoning)]
                       else []))]"

definition add_tool_result ::
  "pyval list \<Rightarrow> pystr \<Rightarrow> pystr option \<Rightarrow> pystr \<Rightarrow> pyval list" where
  "add_tool_result msgs tool_call_id tool_name result =
     msgs @ [PDict [(py ''role'', PStr (py ''tool'')), (py ''tool_call_id'', PStr tool_call_id),
                    (py ''name'', opt_str tool_name), (py ''content'', PStr result)]]"

definition tool_call_dict :: "AgentEnv \<Rightarrow> ToolCallRequest \<Rightarrow> pyval" where
  "tool_call_dict env tc =
     PDict [(py ''id'', PStr (tc_id tc)), (py ''type'', PStr (py ''function'')),
            (py ''function'',
             PDict [(py ''name'', opt_str (tc_name tc)),
                    (py ''arguments'', PStr (json_dumps env (arguments tc)))])]"

record LoopState =
  loop_messages :: "pyval list"
  iteration :: int
  final_content :: "pystr option"
  last_finish_reason :: pystr
  tool_use_log :: "(pystr option \<times> pystr \<times> pystr) list"
  stashed_content :: "pystr option"

definition init_loop :: "pyval list \<Rightarrow> LoopState" where
  "init_loop initial_messages =
     \<lparr>loop_messages = initial_messages, iteration = 0, final_content = None,
      last_finish_reason = py ''unknown'', tool_use_log = [], stashed_content = None\<rparr>"

text \<open>One pass of \<open>for tool_call in response.tool_calls\<close>\<close>

definition run_tool_call :: "AgentEnv \<Rightarrow> ToolCallRequest \<Rightarrow> LoopState \<Rightarrow> LoopState" where
  "run_tool_call env tool_call st =
     (let args_str = json_dumps_unicode env (arguments tool_call);
          result = tools_execute env (length (tool_use_log st)) (tc_name tool_call)
                     (arguments tool_call)
      in st\<lparr>loop_messages :=
                add_tool_result (loop_messages st) (tc_id tool_call) (tc_name tool_call) result,
              tool_use_log :=
                tool_use_log st @
                  [(tc_name tool_call,
                    take 100 args_str @ (if 100 < length args_str then py ''...'' else []),
                    if 200 < length result then take 200 result @ py ''...(truncated)''
                    else result)]\<rparr>)"

text \<open>The branch of the loop body for a response that carries tool calls\<close>

definition tool_calls_branch :: "AgentEnv \<Rightarrow> LLMResponse \<Rightarrow> LoopState \<Rightarrow> LoopState" where
  "tool_calls_branch env response st =
     (let st1 = st\<lparr>loop_messages :=
                      add_assistant_message (loop_messages st) (resp_content response)
                        (map (tool_call_dict env) (tool_calls response))
                        (reasoning_content response)\<rparr>;
          st2 = (if nonempty (resp_content response)
                    \<and> strip (or_empty_str (resp_content response)) \<noteq> []
                 then st1\<lparr>stashed_content := resp_content response\<rparr>
                 else st1)
      in fold (run_tool_call env) (tool_calls response) st2)"

definition blank_content_message :: "pystr \<Rightarrow> int \<Rightarrow> int \<Rightarrow> pystr" where
  "blank_content_message reason iter cap =
     py ''I could not produce a final response because the model returned empty/blank content ''
     @ py ''(finish_reason='' @ reason @ py '', iteration='' @ str_int iter @ py ''/''
     @ str_int cap @ py ''). '' @ py ''Please retry.''"

text \<open>The branch for a response without tool calls: the final content\<close>

definition final_branch :: "AgentLoop \<Rightarrow> LLMResponse \<Rightarrow> LoopState \<Rightarrow> pystr" where
  "final_branch self response st =
     (if resp_content response = None \<or> strip (or_empty_str (resp_content response)) = []
      then (if \<exists>entry \<in> set (tool_use_log st). fst entry = Some (py ''message'') then []
            else if nonempty (stashed_content st) then or_empty_str (stashed_content st)
            else blank_content_message (last_finish_reason st) (iteration st)
                   (max_iterations self))
      else or_empty_str (resp_content response))"

definition finish_reason_or_unknown :: "LLMResponse \<Rightarrow> pystr" where
  "finish_reason_or_unknown response =
     (if finish_reason response \<noteq> [] then finish_reason response else py ''unknown'')"

text \<open>
  The \<open>while iteration < self.max_iterations\<close> loop. An exception of \<open>provider.chat\<close> is not
  caught here and leaves the loop.
\<close>

function agent_loop_while :: "AgentEnv \<Rightarrow> AgentLoop \<Rightarrow> LoopState \<Rightarrow> error + LoopState" where
  "agent_loop_while env self st =
     (if iteration st < max_iterations self
      then (case provider_chat env (nat (iteration st + 1)) (loop_messages st) of
              Inl e \<Rightarrow> Inl e
            | Inr response \<Rightarrow>
                if has_tool_calls response
                then agent_loop_while env self
                       ((tool_calls_branch env response st)
                          \<lparr>iteration := iteration st + 1,
                           last_finish_reason := finish_reason_or_unknown response\<rparr>)
                else Inr (st\<lparr>iteration := iteration st + 1,
                              last_finish_reason := finish_reason_or_unknown response,
                              final_content :=
                                Some (final_branch self response
                                        (st\<lparr>iteration := iteration st + 1,
                                            last_finish_reason :=
                                              finish_reason_or_unknown response\<rparr>))\<rparr>))
      else Inr st)"
  by pat_completeness auto
termination
  by (relation "measure (\<lambda>(env, self, st). nat (max_iterations self - iteration st))") auto

declare agent_loop_while.simps [simp del]

definition iteration_limit_message :: "int \<Rightarrow> pystr \<Rightarrow> pystr" where
  "iteration_limit_message cap reason =
     py ''I stopped before a final response because the tool-call loop hit the iteration limit ''
     @ py ''('' @ str_int cap @ py ''). Last finish_reason='' @ reason @ py ''. ''
     @ py ''Please retry with a narrower request or increase agents.defaults.max_tool_iterations.''"

definition run_agent_loop ::
  "AgentEnv \<Rightarrow> AgentLoop \<Rightarrow> pyval list
     \<Rightarrow> error + (pystr \<times> pystr \<times> (pystr option \<times> pystr \<times> pystr) list)" where
  "run_agent_loop env self initial_messages =
     (case agent_loop_while env self (init_loop initial_messages) of
        Inl e \<Rightarrow> Inl e
      | Inr st \<Rightarrow>
          Inr (case final_content st of
                 None \<Rightarrow> iteration_limit_message (max_iterations self) (last_finish_reason st)
               | Some text \<Rightarrow> text,
               last_finish_reason st, tool_use_log st))"

definition ex_tool_response :: LLMResponse where
  "ex_tool_response =
     \<lparr>resp_content = None,
      tool_calls = [\<lparr>tc_id = py ''call_1'', tc_name = Some (py ''list_dir''),
                     arguments = PDict [(py ''path'', PStr (py ''.''))]\<rparr>],
      finish_reason = py ''tool_calls'', usage = [], reasoning_content = None\<rparr>"

definition ex_agent_env :: AgentEnv where
  "ex_agent_env =
     \<lparr>provider_chat = (\<lambda>i msgs. Inr ex_tool_response),
      tools_execute = (\<lambda>n name args. py ''ok''),
      json_dumps = (\<lambda>v. py ''{}''),
      json_dumps_unicode = (\<lambda>v. py ''{}'')\<rparr>"

subsection \<open>The SILENT marker\<close>

definition SILENT :: pystr where
  "SILENT = py ''[SILENT]''"

text \<open>
  The character class of \<open>_SILENT_TRAILING_RE\<close> as the source file has it: \<open>\s\<close>, the ASCII
  marks \<open>. , ! ? ; :\<close> and \<open>~\<close>, and the code points the file holds where its author meant
  the CJK marks (U+00EF, U+00BC, U+0152, U+00E3, U+20AC, U+201A, U+0178, U+203A, U+0161,
  U+00E2, U+00A6).
\<close>

definition silent_class :: "nat \<Rightarrow> bool" where
  "silent_class c =
     (is_space c \<or>
      c \<in> set [46, 44, 33, 63, 59, 58, 239, 188, 338, 227, 8364, 8218, 376, 8250, 353, 226,
                166, 126])"

text \<open>
  Whether \<open>\[SILENT\][...]*$\<close> matches at the start of \<open>t\<close>: the token, then class characters
  up to the end. (\<open>$\<close> also matches before a final newline, but a newline is in the class,
  so the greedy star takes it and the match always runs to the end of the text.)
\<close>

definition silent_match_here :: "pystr \<Rightarrow> bool" where
  "silent_match_here t = (startswith t SILENT \<and> list_all silent_class (drop (length SILENT) t))"

text \<open>\<open>_SILENT_TRAILING_RE.search(s)\<close>: the start of the leftmost match\<close>

fun silent_search :: "pystr \<Rightarrow> nat option" where
  "silent_search [] = None"
| "silent_search (c # cs) =
     (if silent_match_here (c # cs) then Some 0 else map_option Suc (silent_search cs))"

definition contains_silent_marker :: "pystr option \<Rightarrow> bool" where
  "contains_silent_marker c =
     (case c of None \<Rightarrow> False | Some s \<Rightarrow> s \<noteq> [] \<and> silent_search s \<noteq> None)"

lemma silent_search_bound: "silent_search s = Some i \<Longrightarrow> i < length s"
  by (induction s arbitrary: i) (auto split: if_splits)

text \<open>
  \<open>while RE.search(cleaned): cleaned = RE.sub("", cleaned)\<close>. A match runs to the end of the
  text, so there is one match to replace and what is left is the text before it.
\<close>

function strip_silent_loop :: "pystr \<Rightarrow> pystr" where
  "strip_silent_loop cleaned =
     (case silent_search cleaned of
        None \<Rightarrow> cleaned
      | Some i \<Rightarrow> strip_silent_loop (take i cleaned))"
  by pat_completeness auto
termination
  by (relation "measure length") (auto dest: silent_search_bound)

declare strip_silent_loop.simps [simp del]

definition strip_silent_marker :: "pystr option \<Rightarrow> pystr option" where
  "strip_silent_marker c =
     (case c of
        None \<Rightarrow> None
      | Some s \<Rightarrow>
          if silent_search s = None then Some s
          else Some (strip (collapse_newlines (strip_silent_loop s))))"

text \<open>
  The text ends in the sentinel, followed by nothing but characters of the class the
  source file holds.
\<close>

definition ends_with_sentinel :: "pystr \<Rightarrow> bool" where
  "ends_with_sentinel s = (\<exists>pre tail. s = pre @ py ''[SILENT]'' @ tail \<and> list_all silent_class tail)"


text \<open>A text without its trailing run of class characters\<close>

definition before_trailing :: "pystr \<Rightarrow> pystr" where
  "before_trailing s = rev (dropWhile silent_class (rev s))"

text \<open>
  In the words of the specification, the sentinel may be followed by whitespace and
  terminal punctuation, CJK marks included. The terminal punctuation is taken to be the
  ASCII marks \<open>. , ! ? ; : ~\<close> of the source's class and the CJK marks whose UTF-8 bytes
  that class holds, read as Windows-1252: U+FF0C, U+3002, U+FF01, U+FF1F, U+FF1B, U+FF1A,
  U+3001 and U+2026.
\<close>

definition terminal_punctuation :: "nat \<Rightarrow> bool" where
  "terminal_punctuation c =
     (c \<in> set [46, 44, 33, 63, 59, 58, 126,
               65292, 12290, 65281, 65311, 65307, 65306, 12289, 8230])"

text \<open>The text \<open>ok [SILENT]\<close> followed by the euro sign (U+20AC)\<close>

definition ex_silent_euro :: pystr where
  "ex_silent_euro = py ''ok [SILENT]'' @ [8364]"

subsection \<open>Memory consolidation\<close>

text \<open>
  \<open>MemoryStore\<close> (nanobot/agent/memory.py): the long-term memory file (\<open>None\<close> while it does
  not exist) and the history log.
\<close>

record MemoryStore =
  memory_file :: "pystr option"
  history_file :: pystr

















text \<open>
  The guarded block up to the point where the watermarks are assigned: the exception
  raised there (if any), the memory store as it is left, and whether the block got as far
  as the assignment.
\<close>

record TryResult =
  try_error :: "error option"
  try_store :: MemoryStore
  completed :: bool

definition stopped :: "MemoryStore \<Rightarrow> TryResult" where
  "stopped store = \<lparr>try_error = None, try_store = store, completed = False\<rparr>"










subsection \<open>Sample runs of the consolidation\<close>








section \<open>Properties of the message bus\<close>

lemma buffered_upd: "buffered (bus\<lparr>inbound_collect_buffer := (inbound_collect_buffer bus)(k \<mapsto> b)\<rparr>) k' = (if k' = k then b else buffered bus k')"
  by (simp add: buffered_def)

lemma publish_inbound_active:
  assumes "active_inbound_session bus = Some K" "K \<noteq> []"
  shows "active_inbound_session (publish_inbound m bus) = Some K"
    and "inbound (publish_inbound m bus) = inbound bus @ (if session_key m = K then [] else [m])"
    and "buffered (publish_inbound m bus) k = buffered bus k @ (if session_key m = K \<and> k = K then [m] else [])"
    and "outbound_waiters (publish_inbound m bus) = outbound_waiters bus"
  using assms by (auto simp: publish_inbound_def buffered_def)

lemma publish_many:
  assumes "active_inbound_session bus = Some K" "K \<noteq> []"
  shows "active_inbound_session (fold publish_inbound ms bus) = Some K \<and>
     inbound (fold publish_inbound ms bus) = inbound bus @ filter (\<lambda>m. session_key m \<noteq> K) ms \<and>
     buffered (fold publish_inbound ms bus) K = buffered bus K @ filter (\<lambda>m. session_key m = K) ms"
  using assms
proof (induction ms arbitrary: bus)
  case Nil then show ?case by simp
next
  case (Cons m ms)
  have a: "active_inbound_session (publish_inbound m bus) = Some K"
    using Cons.prems by (rule publish_inbound_active(1))
  show ?case using Cons.IH[OF a Cons.prems(2)] publish_inbound_active(2,3)[OF Cons.prems, of m]
    by simp
qed

lemma session_key_nonempty: "session_key m \<noteq> []"
  by (simp add: session_key_def py_def)

lemma consume_active: "consume_inbound bus0 = Some (m0, bus1) \<Longrightarrow>
   active_inbound_session bus1 = Some (session_key m0) \<and> inbound bus0 = m0 # inbound bus1
   \<and> inbound_collect_buffer bus1 = inbound_collect_buffer bus0"
  by (auto simp: consume_inbound_def split: list.splits)

lemma merge_fields:
  assumes "ms \<noteq> []"
  shows "\<exists>merged. merge_buffered_messages ms = Inr merged \<and>
     content merged = (if length ms = 1 then content (hd ms) else join [nl, nl] (map prefixed ms)) \<and>
     media merged = concat (map media ms) \<and>
     channel merged = channel (hd ms) \<and> sender_id merged = sender_id (hd ms) \<and>
     chat_id merged = chat_id (hd ms) \<and> timestamp merged = timestamp (hd ms) \<and>
     (\<exists>md. metadata merged = Some md \<and>
        map_of md (py ''collected_messages'') = Some (PList (map collected_entry ms)) \<and>
        map_of md (py ''collected_count'') = Some (PInt (int (length ms))) \<and>
        (\<forall>k. k \<noteq> py ''collected_messages'' \<and> k \<noteq> py ''collected_count'' \<longrightarrow>
            map_of md k = map_of (or_empty (metadata (hd ms))) k))"
  using assms by (cases ms) (auto simp: Let_def update_conv' py_def)

text \<open>
  Claim C1. Once \<open>consume_inbound\<close> has returned a message of session \<open>K\<close>, publishing
  any messages \<open>ms\<close> leaves the active session at \<open>K\<close>, puts exactly the messages of the
  other sessions on the inbound queue (in order) and appends the messages of \<open>K\<close> to the
  buffer of \<open>K\<close> (in order). Completing the turn with a message of \<open>K\<close> then drains that
  buffer: if it holds \<open>n \<ge> 1\<close> messages, exactly one merged message is enqueued, whose
  content is the content of the only entry when \<open>n = 1\<close> and otherwise the entries
  \<open>[sender_id] content\<close> joined by blank lines, whose media is the concatenation of the
  buffered media, whose metadata holds \<open>collected_messages\<close> (one entry per buffered
  message, in order, each the dict of that message's \<open>sender_id\<close>, \<open>content\<close>,
  \<open>timestamp\<close> as text, \<open>media\<close> and \<open>metadata\<close>) and \<open>collected_count = n\<close>, and
  whose other fields and metadata keys are those of the first buffered message.
\<close>

theorem bus_buffering_fifo:
  assumes "consume_inbound bus0 = Some (m0, bus1)"
    and "session_key m = session_key m0"
  shows "let K = session_key m0;
             bus2 = fold publish_inbound ms bus1;
             buf = buffered bus1 K @ filter (\<lambda>x. session_key x = K) ms
         in active_inbound_session bus2 = Some K \<and>
            inbound bus2 = inbound bus1 @ filter (\<lambda>x. session_key x \<noteq> K) ms \<and>
            buffered bus2 K = buf \<and>
            (buf = [] \<longrightarrow>
               complete_inbound_turn m bus2 =
                 Inr (bus2\<lparr>inbound_collect_buffer := (inbound_collect_buffer bus2)(K := None),
                          active_inbound_session := None\<rparr>)) \<and>
            (buf \<noteq> [] \<longrightarrow>
               (\<exists>merged md.
                  complete_inbound_turn m bus2 =
                    Inr (bus2\<lparr>inbound := inbound bus2 @ [merged],
                             inbound_collect_buffer := (inbound_collect_buffer bus2)(K := None),
                             active_inbound_session := None\<rparr>) \<and>
                  content merged =
                    (if length buf = 1 then content (hd buf)
                     else join [nl, nl]
                            (map (\<lambda>x. py ''['' @ sender_id x @ py ''] '' @ content x) buf)) \<and>
                  media merged = concat (map media buf) \<and>
                  channel merged = channel (hd buf) \<and>
                  sender_id merged = sender_id (hd buf) \<and>
                  chat_id merged = chat_id (hd buf) \<and>
                  timestamp merged = timestamp (hd buf) \<and>
                  metadata merged = Some md \<and>
                  map_of md (py ''collected_messages'') =
                    Some (PList (map (\<lambda>x. PDict
                       [(py ''sender_id'', PStr (sender_id x)),
                        (py ''content'', PStr (content x)),
                        (py ''timestamp'',
                           PStr (case timestamp x of Datetime d \<Rightarrow> d | Text s \<Rightarrow> s)),
                        (py ''media'', PList (map PStr (media x))),
                        (py ''metadata'',
                           PDict (case metadata x of None \<Rightarrow> [] | Some d \<Rightarrow> d))]) buf)) \<and>
                  map_of md (py ''collected_count'') = Some (PInt (int (length buf))) \<and>
                  (\<forall>k. k \<noteq> py ''collected_messages'' \<and> k \<noteq> py ''collected_count'' \<longrightarrow>
                       map_of md k = map_of (or_empty (metadata (hd buf))) k)))"
proof -
  define K where "K = session_key m0"
  define bus2 where "bus2 = fold publish_inbound ms bus1"
  define buf where "buf = buffered bus1 K @ filter (\<lambda>x. session_key x = K) ms"
  have act1: "active_inbound_session bus1 = Some K"
    using consume_active [OF assms(1)] by (simp add: K_def)
  have Kne: "K \<noteq> []"
    by (simp add: K_def session_key_nonempty)
  have many: "active_inbound_session bus2 = Some K \<and>
      inbound bus2 = inbound bus1 @ filter (\<lambda>x. session_key x \<noteq> K) ms \<and>
      buffered bus2 K = buf"
    unfolding bus2_def buf_def by (rule publish_many [OF act1 Kne])
  have mK: "session_key m = K"
    using assms(2) by (simp add: K_def)
  have empty: "buf = [] \<Longrightarrow>
      complete_inbound_turn m bus2 =
        Inr (bus2\<lparr>inbound_collect_buffer := (inbound_collect_buffer bus2)(K := None),
                 active_inbound_session := None\<rparr>)"
    using many mK by (simp add: complete_inbound_turn_def)
  have nonempty: "\<exists>merged md.
        complete_inbound_turn m bus2 =
          Inr (bus2\<lparr>inbound := inbound bus2 @ [merged],
                   inbound_collect_buffer := (inbound_collect_buffer bus2)(K := None),
                   active_inbound_session := None\<rparr>) \<and>
        content merged =
          (if length buf = 1 then content (hd buf)
           else join [nl, nl] (map (\<lambda>x. py ''['' @ sender_id x @ py ''] '' @ content x) buf)) \<and>
        media merged = concat (map media buf) \<and>
        channel merged = channel (hd buf) \<and>
        sender_id merged = sender_id (hd buf) \<and>
        chat_id merged = chat_id (hd buf) \<and>
        timestamp merged = timestamp (hd buf) \<and>
        metadata merged = Some md \<and>
        map_of md (py ''collected_messages'') =
                    Some (PList (map (\<lambda>x. PDict
                       [(py ''sender_id'', PStr (sender_id x)),
                        (py ''content'', PStr (content x)),
                        (py ''timestamp'',
                           PStr (case timestamp x of Datetime d \<Rightarrow> d | Text s \<Rightarrow> s)),
                        (py ''media'', PList (map PStr (media x))),
                        (py ''metadata'',
                           PDict (case metadata x of None \<Rightarrow> [] | Some d \<Rightarrow> d))]) buf)) \<and>
        map_of md (py ''collected_count'') = Some (PInt (int (length buf))) \<and>
        (\<forall>k. k \<noteq> py ''collected_messages'' \<and> k \<noteq> py ''collected_count'' \<longrightarrow>
             map_of md k = map_of (or_empty (metadata (hd buf))) k)" if ne: "buf \<noteq> []"
  proof -
    obtain merged md where mg: "merge_buffered_messages buf = Inr merged"
      and rest: "content merged = (if length buf = 1 then content (hd buf) else join [nl, nl] (map prefixed buf))"
        "media merged = concat (map media buf)" "channel merged = channel (hd buf)"
        "sender_id merged = sender_id (hd buf)" "chat_id merged = chat_id (hd buf)"
        "timestamp merged = timestamp (hd buf)" "metadata merged = Some md"
        "map_of md (py ''collected_messages'') = Some (PList (map collected_entry buf))"
        "map_of md (py ''collected_count'') = Some (PInt (int (length buf)))"
        "\<forall>k. k \<noteq> py ''collected_messages'' \<and> k \<noteq> py ''collected_count'' \<longrightarrow>
            map_of md k = map_of (or_empty (metadata (hd buf))) k"
      using merge_fields [OF ne] by blast
    have pre: "prefixed = (\<lambda>x. py ''['' @ sender_id x @ py ''] '' @ content x)"
      by (rule ext) (simp add: prefixed_def)
    have tt: "timestamp_to_text t = (case t of Datetime d \<Rightarrow> d | Text s \<Rightarrow> s)" for t
      by (cases t) simp_all
    have oe: "or_empty d = (case d of None \<Rightarrow> [] | Some d \<Rightarrow> d)" for d
      by (cases d) simp_all
    have ce: "collected_entry = (\<lambda>x. PDict
        [(py ''sender_id'', PStr (sender_id x)),
         (py ''content'', PStr (content x)),
         (py ''timestamp'',
            PStr (case timestamp x of Datetime d \<Rightarrow> d | Text s \<Rightarrow> s)),
         (py ''media'', PList (map PStr (media x))),
         (py ''metadata'',
            PDict (case metadata x of None \<Rightarrow> [] | Some d \<Rightarrow> d))])"
      by (rule ext) (simp add: collected_entry_def tt oe)
    have step: "complete_inbound_turn m bus2 =
          Inr (bus2\<lparr>inbound := inbound bus2 @ [merged],
                   inbound_collect_buffer := (inbound_collect_buffer bus2)(K := None),
                   active_inbound_session := None\<rparr>)"
      using many mK ne mg by (simp add: complete_inbound_turn_def)
    show ?thesis
      using step rest unfolding pre ce by blast
  qed
  show ?thesis
    using many empty nonempty
    unfolding Let_def K_def [symmetric] bus2_def [symmetric] buf_def [symmetric]
    by blast
qed

theorem bus_buffering_fifo_witness:
  "consume_inbound (publish_inbound (ex_msg ''u0'' ''c1'' ''start'') init_bus)
     = Some (ex_msg ''u0'' ''c1'' ''start'', ex_bus_started) \<and>
   session_key (ex_msg ''u0'' ''c1'' ''start'') = py ''chat:c1'' \<and>
   (case complete_inbound_turn (ex_msg ''u0'' ''c1'' ''start'')
           (fold publish_inbound
              [ex_msg ''alice'' ''c1'' ''one'', ex_msg ''eve'' ''c2'' ''other'',
               ex_msg ''bob'' ''c1'' ''two''] ex_bus_started) of
      Inl e \<Rightarrow> False
    | Inr b \<Rightarrow>
        active_inbound_session b = None \<and>
        inbound_collect_buffer b (py ''chat:c1'') = None \<and>
        map content (inbound b) = [py ''other'', py ''[alice] one'' @ [nl, nl] @ py ''[bob] two''] \<and>
        map (\<lambda>x. map_of (or_empty (metadata x)) (py ''collected_count'')) (inbound b)
          = [None, Some (PInt 2)] \<and>
        map (\<lambda>x. map_of (or_empty (metadata x)) (py ''collected_messages'')) (inbound b)
          = [None,
             Some (PList
               [PDict [(py ''sender_id'', PStr (py ''alice'')),
                       (py ''content'', PStr (py ''one'')),
                       (py ''timestamp'', PStr (py ''2026-01-01T00:00:00'')),
                       (py ''media'', PList []),
                       (py ''metadata'', PDict [])],
                PDict [(py ''sender_id'', PStr (py ''bob'')),
                       (py ''content'', PStr (py ''two'')),
                       (py ''timestamp'', PStr (py ''2026-01-01T00:00:00'')),
                       (py ''media'', PList []),
                       (py ''metadata'', PDict [])]])])"
  using bus_buffering_fifo [of "publish_inbound (ex_msg ''u0'' ''c1'' ''start'') init_bus"
      "ex_msg ''u0'' ''c1'' ''start''" ex_bus_started "ex_msg ''u0'' ''c1'' ''start''"
      "[ex_msg ''alice'' ''c1'' ''one'', ex_msg ''eve'' ''c2'' ''other'',
        ex_msg ''bob'' ''c1'' ''two'']"]
  by (simp add: consume_inbound_def publish_inbound_def init_bus_def ex_bus_started_def
      ex_msg_def session_key_def py_def buffered_def complete_inbound_turn_def Let_def
      nl_def)

text \<open>
  Claim C9. Creating a waiter for a request id that already has a registered waiter
  installs the fresh future as the waiter of that id (the only one: waiters are a map),
  resolves the old future with \<open>(False, "superseded by a newer outbound request")\<close> when it
  was still pending, and leaves it as it was when it was already done; no other future
  and no other request id is touched.
\<close>

theorem create_outbound_waiter_supersedes:
  assumes "waiters_allocated (lp, bus)"
    and "outbound_waiters bus rid = Some old"
    and "create_outbound_waiter rid (lp, bus) = (fut, lp', bus')"
  shows "outbound_waiters bus' = (outbound_waiters bus)(rid \<mapsto> fut) \<and>
         fut \<noteq> old \<and> fut \<notin> ran (outbound_waiters bus) \<and>
         futures lp' fut = Pending \<and>
         futures lp' old =
           (if futures lp old = Pending
            then Done False (Some (py ''superseded by a newer outbound request''))
            else futures lp old) \<and>
         (\<forall>a. a \<noteq> old \<and> a \<noteq> fut \<longrightarrow> futures lp' a = futures lp a) \<and>
         waiters_allocated (lp', bus')"
proof -
  have lt: "\<forall>a \<in> ran (outbound_waiters bus). a < next_future lp"
    using assms(1) by (simp add: waiters_allocated_def)
  have old: "old < next_future lp"
    using lt assms(2) by (auto simp: ran_def)
  have fut: "fut = next_future lp"
    using assms(3) by (auto simp: create_outbound_waiter_def create_future_def Let_def)
  have fresh: "fut \<notin> ran (outbound_waiters bus)"
    using lt fut by auto
  have ran': "ran ((outbound_waiters bus)(rid \<mapsto> fut)) \<subseteq> insert fut (ran (outbound_waiters bus))"
    by (auto simp: ran_def split: if_splits)
  show ?thesis
    using assms(2,3) old fut fresh lt ran'
    by (auto simp: create_outbound_waiter_def create_future_def Let_def set_result_def
        future_done_def waiters_allocated_def less_Suc_eq superseded_def split: if_splits)
qed

theorem create_outbound_waiter_supersedes_witness:
  "waiters_allocated (ex_loop, ex_bus_waiting) \<and>
   outbound_waiters ex_bus_waiting (py ''out_1'') = Some 0 \<and>
   fst (create_outbound_waiter (py ''out_1'') (ex_loop, ex_bus_waiting)) = 1 \<and>
   futures (fst (snd (create_outbound_waiter (py ''out_1'') (ex_loop, ex_bus_waiting)))) 0
     = Done False (Some (py ''superseded by a newer outbound request'')) \<and>
   outbound_waiters (snd (snd (create_outbound_waiter (py ''out_1'') (ex_loop, ex_bus_waiting))))
     (py ''out_1'') = Some 1"
proof -
  have a: "waiters_allocated (ex_loop, ex_bus_waiting)"
    by (simp add: waiters_allocated_def ex_loop_def ex_bus_waiting_def init_bus_def)
  have b: "outbound_waiters ex_bus_waiting (py ''out_1'') = Some 0"
    by (simp add: ex_bus_waiting_def)
  obtain fut lp' bus' where
    c: "create_outbound_waiter (py ''out_1'') (ex_loop, ex_bus_waiting) = (fut, lp', bus')"
    by (cases "create_outbound_waiter (py ''out_1'') (ex_loop, ex_bus_waiting)") auto
  have d: "fut = 1"
    using c by (auto simp: create_outbound_waiter_def create_future_def Let_def ex_loop_def)
  show ?thesis
    using create_outbound_waiter_supersedes [OF a b c] a b c d
    by (simp add: ex_loop_def)
qed

text \<open>
  Claim C10. Completing a turn with a message whose session key is not the active
  session changes nothing: no buffer is drained, nothing is enqueued, the active-session
  marker stays. A completion for the active session is the only one that clears the marker.
\<close>

theorem complete_inbound_turn_mismatch_noop:
  "(active_inbound_session bus \<noteq> Some (session_key msg) \<longrightarrow>
      complete_inbound_turn msg bus = Inr bus) \<and>
   (complete_inbound_turn msg bus = Inr bus' \<and>
      active_inbound_session bus' \<noteq> active_inbound_session bus \<longrightarrow>
      active_inbound_session bus = Some (session_key msg) \<and>
      active_inbound_session bus' = None)"
  by (auto simp: complete_inbound_turn_def Let_def split: if_splits sum.splits)

theorem complete_inbound_turn_mismatch_noop_witness:
  "active_inbound_session ex_bus_started \<noteq> Some (session_key (ex_msg ''eve'' ''c2'' ''other'')) \<and>
   complete_inbound_turn (ex_msg ''eve'' ''c2'' ''other'') ex_bus_started = Inr ex_bus_started \<and>
   complete_inbound_turn (ex_msg ''u0'' ''c1'' ''start'') ex_bus_started = Inr init_bus \<and>
   active_inbound_session init_bus \<noteq> active_inbound_session ex_bus_started \<and>
   active_inbound_session ex_bus_started = Some (session_key (ex_msg ''u0'' ''c1'' ''start''))"
  using complete_inbound_turn_mismatch_noop [of ex_bus_started "ex_msg ''eve'' ''c2'' ''other''" ex_bus_started]
    complete_inbound_turn_mismatch_noop [of ex_bus_started "ex_msg ''u0'' ''c1'' ''start''" init_bus]
  by (simp add: ex_bus_started_def init_bus_def ex_msg_def session_key_def py_def
      complete_inbound_turn_def buffered_def)

section \<open>Properties of the provider adapter\<close>

text \<open>
  Claim C6. When \<open>acompletion\<close> raises an \<open>Exception\<close> in the default mode and again in the
  other mode, \<open>chat\<close> returns (it does not raise) a response with finish reason \<open>error\<close>, no
  tool calls, and the content \<open>Error calling LLM: <type>: <message>\<close> built from the exception
  of the retry (the message is \<open>str(exc)\<close> with the whitespace at its ends removed), or
  \<open>Error calling LLM: <type>\<close> when that message is empty.
\<close>

theorem chat_double_failure:
  assumes "acompletion_stream env = Inl stream_e" and "is_Exception stream_e"
    and "acompletion_non_stream env = Inl non_stream_e" and "is_Exception non_stream_e"
    and "fallback_e = (if default_stream then non_stream_e else stream_e)"
  shows "chat default_stream env =
           Inr \<lparr>resp_content =
                  Some (py ''Error calling LLM: '' @ type_name fallback_e @
                        (if strip (str_of fallback_e) = [] then []
                         else py '': '' @ strip (str_of fallback_e))),
                tool_calls = [], finish_reason = py ''error'', usage = [],
                reasoning_content = None\<rparr>"
proof -
  have s: "stream_chat env = Inl stream_e"
    using assms(1) by (simp add: stream_chat_def)
  have n: "non_stream_chat env = Inl non_stream_e"
    using assms(3) by (simp add: non_stream_chat_def)
  show ?thesis
    using s n assms(2,4,5)
    by (cases default_stream) (simp_all add: chat_def format_exception_def Let_def)
qed

theorem chat_double_failure_witness:
  "chat False (ex_failing_env (py ''stream broken'')) =
     Inr \<lparr>resp_content = Some (py ''Error calling LLM: ValueError: stream broken''),
          tool_calls = [], finish_reason = py ''error'', usage = [], reasoning_content = None\<rparr> \<and>
   chat False (ex_failing_env []) =
     Inr \<lparr>resp_content = Some (py ''Error calling LLM: ValueError''),
          tool_calls = [], finish_reason = py ''error'', usage = [], reasoning_content = None\<rparr> \<and>
   chat True (ex_failing_env []) =
     Inr \<lparr>resp_content = Some (py ''Error calling LLM: RuntimeError: primary request failed''),
          tool_calls = [], finish_reason = py ''error'', usage = [], reasoning_content = None\<rparr>"
proof -
  have strip1: "strip (py ''stream broken'') = py ''stream broken''"
    and strip2: "strip (py ''primary request failed'') = py ''primary request failed''"
    by (simp_all add: strip_def lstrip_def rstrip_def is_space_def py_def)
  have strip3: "strip [] = []"
    by (simp add: strip_def lstrip_def rstrip_def)
  show ?thesis
    using chat_double_failure [of "ex_failing_env (py ''stream broken'')"
        "Raised True (py ''ValueError'') (py ''stream broken'')"
        "Raised True (py ''RuntimeError'') (py ''primary request failed'')"
        "Raised True (py ''ValueError'') (py ''stream broken'')" False]
      chat_double_failure [of "ex_failing_env []"
        "Raised True (py ''ValueError'') []"
        "Raised True (py ''RuntimeError'') (py ''primary request failed'')"
        "Raised True (py ''ValueError'') []" False]
      chat_double_failure [of "ex_failing_env []"
        "Raised True (py ''ValueError'') []"
        "Raised True (py ''RuntimeError'') (py ''primary request failed'')"
        "Raised True (py ''RuntimeError'') (py ''primary request failed'')" True]
    by (simp add: ex_failing_env_def strip1 strip2 strip3) (simp add: py_def)
qed

lemma nonempty_or_empty: "\<not> nonempty x \<Longrightarrow> or_empty_str x = []"
  by (cases x) auto

lemma map_of_merge_tool_call_delta:
  "map_of (merge_tool_call_delta tc m) =
     (map_of m)(index tc \<mapsto> step_entry tc (map_of m (index tc)))"
proof (cases "tc_function tc")
  case None
  then show ?thesis
    by (cases "map_of m (index tc)")
      (auto simp: merge_tool_call_delta_def step_entry_def Let_def update_conv' map_of_map_entry
        fragment_name_def fragment_arguments_def fun_eq_iff)
next
  case (Some f)
  then show ?thesis
    by (cases "map_of m (index tc)")
      (auto simp: merge_tool_call_delta_def step_entry_def Let_def update_conv' map_of_map_entry
        fragment_name_def fragment_arguments_def fun_eq_iff nonempty_or_empty)
qed

lemma distinct_merge_tool_call_delta:
  "distinct (map fst m) \<Longrightarrow> distinct (map fst (merge_tool_call_delta tc m))"
  by (auto simp: merge_tool_call_delta_def Let_def distinct_update distinct_map_entry
      split: option.splits)

lemma last_nonempty_snoc:
  "last_nonempty (xs @ [x]) = (if nonempty x then x else last_nonempty xs)"
  by (simp add: last_nonempty_def)

lemma last_nonempty_Nil: "last_nonempty [] = None"
  by (simp add: last_nonempty_def)

lemma with_index_snoc:
  "with_index i (frs @ [tc]) = (if index tc = i then with_index i frs @ [tc] else with_index i frs)"
  by (simp add: with_index_def)

lemma with_index_empty: "(with_index i frs = []) = (\<not> (\<exists>t \<in> set frs. index t = i))"
  by (auto simp: with_index_def filter_empty_conv)

lemma merged_entry_other:
  "index tc \<noteq> i \<Longrightarrow> merged_entry (frs @ [tc]) i = merged_entry frs i"
  by (simp add: merged_entry_def merged_id_def merged_name_def merged_arguments_def with_index_snoc)

lemma merged_id_of_snoc:
  "merged_id_of (fs @ [tc]) =
     (if nonempty (delta_id tc) then or_empty_str (delta_id tc) else merged_id_of fs)"
  by (simp add: merged_id_of_def last_nonempty_snoc)

lemma merged_arguments_of_snoc:
  "merged_arguments_of (fs @ [tc]) = merged_arguments_of fs @ fragment_arguments tc"
  by (simp add: merged_arguments_of_def)

lemma merged_name_of_snoc:
  "fs \<noteq> [] \<Longrightarrow>
     merged_name_of (fs @ [tc]) =
       (if nonempty (fragment_name tc) then fragment_name tc else merged_name_of fs)"
proof -
  assume "fs \<noteq> []"
  then obtain a list where fs: "fs = a # list"
    by (cases fs) auto
  show ?thesis
  proof (cases "nonempty (fragment_name tc)")
    case True
    then obtain n where "fragment_name tc = Some n"
      by (cases "fragment_name tc") auto
    then show ?thesis
      using True by (simp add: merged_name_of_def last_nonempty_snoc)
  next
    case False
    then have l: "last_nonempty (map fragment_name (fs @ [tc])) = last_nonempty (map fragment_name fs)"
      by (simp add: last_nonempty_snoc)
    have c: "(case fs @ [tc] of [] \<Rightarrow> None | first # _ \<Rightarrow> g first) =
        (case fs of [] \<Rightarrow> None | first # _ \<Rightarrow> g first)" for g :: "ToolCallDelta \<Rightarrow> pystr option"
      by (simp add: fs)
    show ?thesis
      unfolding merged_name_of_def l c using False by simp
  qed
qed

lemma merged_name_of_single:
  "merged_name_of [tc] = (case tc_function tc of Some f \<Rightarrow> fn_name f | None \<Rightarrow> Some [])"
  by (cases "tc_function tc")
    (auto simp: merged_name_of_def last_nonempty_def fragment_name_def split: option.splits)

lemma step_entry_first:
  assumes "with_index (index tc) frs = []"
  shows "step_entry tc None = merged_entry (frs @ [tc]) (index tc)"
proof -
  have w: "with_index (index tc) (frs @ [tc]) = [tc]"
    using assms by (simp add: with_index_snoc)
  have id: "entry_id (step_entry tc None) = merged_id_of [tc]"
    by (cases "delta_id tc") (auto simp: step_entry_def Let_def merged_id_of_def last_nonempty_def)
  have name: "entry_name (step_entry tc None) = merged_name_of [tc]"
    unfolding merged_name_of_single
    by (cases "tc_function tc")
      (auto simp: step_entry_def Let_def fragment_name_def split: option.splits)
  have args: "entry_arguments (step_entry tc None) = merged_arguments_of [tc]"
    by (simp add: step_entry_def Let_def merged_arguments_of_def)
  show ?thesis
    using id name args
    by (simp add: merged_entry_def merged_id_def merged_name_def merged_arguments_def w)
qed

lemma step_entry_later:
  assumes "with_index (index tc) frs \<noteq> []"
  shows "step_entry tc (Some (merged_entry frs (index tc))) = merged_entry (frs @ [tc]) (index tc)"
proof -
  have w: "with_index (index tc) (frs @ [tc]) = with_index (index tc) frs @ [tc]"
    by (simp add: with_index_snoc)
  show ?thesis
    by (simp add: step_entry_def merged_entry_def Let_def merged_id_def merged_name_def
        merged_arguments_def w merged_id_of_snoc merged_arguments_of_snoc
        merged_name_of_snoc [OF assms])
qed

lemma fold_merge_map_of:
  "map_of (fold merge_tool_call_delta frs []) i =
     (if \<exists>t \<in> set frs. index t = i then Some (merged_entry frs i) else None)"
proof (induction frs arbitrary: i rule: rev_induct)
  case Nil
  show ?case by simp
next
  case (snoc tc frs)
  show ?case
  proof (cases "index tc = i")
    case False
    then show ?thesis
      using snoc [of i]
      by (auto simp: map_of_merge_tool_call_delta merged_entry_other)
  next
    case True
    show ?thesis
    proof (cases "with_index (index tc) frs = []")
      case e: True
      then have "map_of (fold merge_tool_call_delta frs []) (index tc) = None"
        using snoc [of "index tc"] by (simp add: with_index_empty)
      then show ?thesis
        using True step_entry_first [OF e]
        by (auto simp: map_of_merge_tool_call_delta)
    next
      case ne: False
      then have "map_of (fold merge_tool_call_delta frs []) (index tc)
          = Some (merged_entry frs (index tc))"
        using snoc [of "index tc"] by (simp add: with_index_empty)
      then show ?thesis
        using True step_entry_later [OF ne]
        by (auto simp: map_of_merge_tool_call_delta)
    qed
  qed
qed

lemma fold_merge_distinct: "distinct (map fst (fold merge_tool_call_delta frs []))"
  by (induction frs rule: rev_induct) (simp_all add: distinct_merge_tool_call_delta)

lemma fold_merge_keys: "set (map fst (fold merge_tool_call_delta frs [])) = index ` set frs"
proof -
  have "set (map fst (fold merge_tool_call_delta frs [])) = dom (map_of (fold merge_tool_call_delta frs []))"
    by (simp add: dom_map_of_conv_image_fst)
  also have "\<dots> = index ` set frs"
    by (auto simp: dom_def fold_merge_map_of)
  finally show ?thesis .
qed

lemma sort_keys:
  "sort (map fst (fold merge_tool_call_delta frs [])) = sorted_list_of_set (index ` set frs)"
proof -
  have "sorted_list_of_set (set (map fst (fold merge_tool_call_delta frs [])))
      = sort (remdups (map fst (fold merge_tool_call_delta frs [])))"
    by (rule sorted_list_of_set_sort_remdups)
  then show ?thesis
    using fold_merge_distinct [of frs] fold_merge_keys [of frs]
    by (simp add: distinct_remdups_id)
qed

lemma stream_step_tool_calls_map:
  "tool_calls_map (stream_step chunk st) =
     fold merge_tool_call_delta (chunk_fragments chunk) (tool_calls_map st)"
  by (simp add: stream_step_def chunk_fragments_def Let_def split: list.splits option.splits)

lemma fold_stream_step_tool_calls_map:
  "tool_calls_map (fold stream_step chunks st) =
     fold merge_tool_call_delta (stream_fragments chunks) (tool_calls_map st)"
  by (induction chunks arbitrary: st)
    (simp_all add: stream_fragments_def stream_step_tool_calls_map)

lemma build_tool_calls_merged:
  "build_tool_calls env (fold merge_tool_call_delta frs []) =
     map (\<lambda>i. \<lparr>tc_id = merged_id frs i, tc_name = merged_name frs i,
                arguments = decode_arguments env (merged_arguments frs i)\<rparr>)
         (sorted_list_of_set (index ` set frs))"
proof -
  let ?m = "fold merge_tool_call_delta frs []"
  let ?S = "index ` set frs"
  let ?f = "\<lambda>i. \<lparr>tc_id = merged_id frs i, tc_name = merged_name frs i,
                arguments = decode_arguments env (merged_arguments frs i)\<rparr>"
  have fin: "finite ?S" by simp
  have each: "(case map_of ?m idx of
                 None \<Rightarrow> []
               | Some tc_data \<Rightarrow>
                   [\<lparr>tc_id = entry_id tc_data, tc_name = entry_name tc_data,
                     arguments = decode_arguments env (entry_arguments tc_data)\<rparr>]) = [?f idx]"
    if "idx \<in> set (sorted_list_of_set ?S)" for idx
  proof -
    from that fin have "idx \<in> ?S" by simp
    then have "map_of ?m idx = Some (merged_entry frs idx)"
      by (auto simp: fold_merge_map_of)
    then show ?thesis by (simp add: merged_entry_def)
  qed
  have "build_tool_calls env ?m = concat (map (\<lambda>idx. [?f idx]) (sorted_list_of_set ?S))"
    unfolding build_tool_calls_def sort_keys
    using each by (intro arg_cong [where f = concat] map_cong) auto
  also have "\<dots> = map ?f (sorted_list_of_set ?S)"
    by (induction "sorted_list_of_set ?S") simp_all
  finally show ?thesis .
qed

lemma log_response_summary_cases:
  "log_response_summary response =
     (if tool_calls response \<noteq> [] \<and> (\<exists>tc \<in> set (take 5 (tool_calls response)). tc_name tc = None)
      then Some (TypeError
                   (py ''sequence item ''
                    @ str_int (int (length (takeWhile (\<lambda>tc. tc_name tc \<noteq> None)
                                              (take 5 (tool_calls response)))))
                    @ py '': expected str instance, NoneType found''))
      else None)"
proof -
  have m: "(None \<in> set (map tc_name xs)) = (\<exists>tc \<in> set xs. tc_name tc = None)"
    for xs :: "ToolCallRequest list"
    by (induction xs) auto
  have t: "length (takeWhile (\<lambda>x. x \<noteq> None) (map tc_name xs))
      = length (takeWhile (\<lambda>tc. tc_name tc \<noteq> None) xs)" for xs :: "ToolCallRequest list"
    by (induction xs) auto
  show ?thesis
    unfolding log_response_summary_def has_tool_calls_def join_names_def m t
    by simp
qed

text \<open>
  For every stream the adapter reads, the final pass builds one tool call per index that
  occurs among the fragments, in increasing index order. Its arguments text is the
  concatenation of the argument strings of the fragments of that index in arrival order,
  decoded by \<open>json.loads\<close> or kept as \<open>{"raw": text}\<close> when decoding fails; its id and name
  are the last non-empty values a fragment of that index provided. When there is a
  fragment at all and each of the first five merged calls has a name, \<open>_stream_chat\<close>
  returns exactly these calls; when one of the first five has the name \<open>None\<close>, writing
  the log summary raises \<open>TypeError\<close> and \<open>_stream_chat\<close> returns nothing.
\<close>

theorem stream_chat_returns_merged:
  assumes "acompletion_stream env = Inr chunks"
  shows "let frs = stream_fragments chunks;
             merged = map (\<lambda>i. \<lparr>tc_id = merged_id frs i, tc_name = merged_name frs i,
                                  arguments =
                                    (case json_loads env (merged_arguments frs i) of
                                       Some v \<Rightarrow> v
                                     | None \<Rightarrow> PDict [(py ''raw'', PStr (merged_arguments frs i))])\<rparr>)
                          (sorted_list_of_set (index ` set frs))
         in build_tool_calls env (tool_calls_map (fold stream_step chunks init_stream)) = merged \<and>
            (frs \<noteq> [] \<and> (\<forall>tc \<in> set (take 5 merged). tc_name tc \<noteq> None) \<longrightarrow>
               (\<exists>response. stream_chat env = Inr response \<and> tool_calls response = merged)) \<and>
            (frs \<noteq> [] \<and> (\<exists>tc \<in> set (take 5 merged). tc_name tc = None) \<longrightarrow>
               stream_chat env =
                 Inl (Raised True (py ''TypeError'')
                        (py ''sequence item ''
                         @ str_int (int (length (takeWhile (\<lambda>tc. tc_name tc \<noteq> None)
                                                   (take 5 merged))))
                         @ py '': expected str instance, NoneType found'')))"
proof -
  define frs where "frs = stream_fragments chunks"
  define merged where "merged = map (\<lambda>i. \<lparr>tc_id = merged_id frs i, tc_name = merged_name frs i,
                                  arguments =
                                    (case json_loads env (merged_arguments frs i) of
                                       Some v \<Rightarrow> v
                                     | None \<Rightarrow> PDict [(py ''raw'', PStr (merged_arguments frs i))])\<rparr>)
                          (sorted_list_of_set (index ` set frs))"
  define st where "st = fold stream_step chunks init_stream"
  have m: "tool_calls_map st = fold merge_tool_call_delta frs []"
    unfolding st_def frs_def
    by (simp add: fold_stream_step_tool_calls_map init_stream_def)
  have built: "build_tool_calls env (tool_calls_map st) = merged"
    unfolding m merged_def build_tool_calls_merged decode_arguments_def ..
  have ne: "merged \<noteq> []" if "frs \<noteq> []"
  proof -
    from that have "index ` set frs \<noteq> {}" by simp
    then have "sorted_list_of_set (index ` set frs) \<noteq> []"
      by (simp add: sorted_list_of_set_eq_Nil_iff)
    then show ?thesis by (simp add: merged_def)
  qed
  have ok: "\<exists>response. stream_chat env = Inr response \<and> tool_calls response = merged"
    if "frs \<noteq> []" "\<forall>tc \<in> set (take 5 merged). tc_name tc \<noteq> None"
    using assms built ne [OF that(1)] that(2)
    by (simp add: stream_chat_def Let_def st_def [symmetric] log_response_summary_cases)
  have bad: "stream_chat env =
      Inl (Raised True (py ''TypeError'')
             (py ''sequence item ''
              @ str_int (int (length (takeWhile (\<lambda>tc. tc_name tc \<noteq> None) (take 5 merged))))
              @ py '': expected str instance, NoneType found''))"
    if "frs \<noteq> []" "\<exists>tc \<in> set (take 5 merged). tc_name tc = None"
    using assms built ne [OF that(1)] that(2)
    by (simp add: stream_chat_def Let_def st_def [symmetric] log_response_summary_cases
        TypeError_def)
  show ?thesis
    using built ok bad
    unfolding Let_def frs_def [symmetric] merged_def [symmetric] st_def [symmetric]
    by blast
qed

theorem stream_chat_returns_merged_witness:
  "(case stream_chat ex_stream_env of
      Inl e \<Rightarrow> False
    | Inr response \<Rightarrow>
        tool_calls response =
          [\<lparr>tc_id = py ''call_1'', tc_name = Some (py ''message''), arguments = ex_args_value\<rparr>])"
proof -
  define chunks where "chunks = (case acompletion_stream ex_stream_env of Inr cs \<Rightarrow> cs | Inl e \<Rightarrow> [])"
  have a: "acompletion_stream ex_stream_env = Inr chunks"
    by (simp add: chunks_def ex_stream_env_def)
  define frs where "frs = stream_fragments chunks"
  have frs: "frs =
      [\<lparr>index = 0, delta_id = Some (py ''call_1''),
        tc_function = Some \<lparr>fn_name = Some (py ''message''), fn_arguments = Some ex_args_head\<rparr>\<rparr>,
       \<lparr>index = 0, delta_id = None,
        tc_function = Some \<lparr>fn_name = None, fn_arguments = Some ex_args_tail\<rparr>\<rparr>]"
    by (simp add: frs_def chunks_def ex_stream_env_def stream_fragments_def chunk_fragments_def)
  have idx: "sorted_list_of_set (index ` set frs) = [0]"
    by (simp add: frs)
  have mid: "merged_id frs 0 = py ''call_1''"
    by (simp add: frs merged_id_def merged_id_of_def with_index_def last_nonempty_def py_def)
  have mname: "merged_name frs 0 = Some (py ''message'')"
    by (simp add: frs merged_name_def merged_name_of_def with_index_def last_nonempty_def
        fragment_name_def py_def)
  have margs: "merged_arguments frs 0 = ex_args_head @ ex_args_tail"
    by (simp add: frs merged_arguments_def merged_arguments_of_def with_index_def
        fragment_arguments_def)
  have loads: "json_loads ex_stream_env (ex_args_head @ ex_args_tail) = Some ex_args_value"
    by (simp add: ex_stream_env_def)
  have ne: "frs \<noteq> []"
    by (simp add: frs)
  show ?thesis
    using stream_chat_returns_merged [OF a] ne
    unfolding Let_def frs_def [symmetric] idx
    by (auto simp: mid mname margs loads)
qed

text \<open>
  Claim C4, at a stream the code does not answer as claimed. The stream is one chunk with
  one fragment of index 0: the id \<open>call_1\<close>, and a function object with the arguments \<open>{}\<close>
  whose name is \<open>None\<close>. The merge gives the one call the claim describes (id \<open>call_1\<close>,
  arguments \<open>{}\<close> decoded, the name no fragment gave), but \<open>_stream_chat\<close> does not return
  it: \<open>_log_response_summary\<close> joins the names and raises \<open>TypeError\<close>. With the stream as
  the fallback mode, \<open>chat\<close> then answers with the error response.
\<close>

theorem stream_chat_unnamed_tool_call:
  "stream_fragments ex_unnamed_chunks =
     [\<lparr>index = 0, delta_id = Some (py ''call_1''),
       tc_function = Some \<lparr>fn_name = None, fn_arguments = Some (py ''{}'')\<rparr>\<rparr>] \<and>
   build_tool_calls ex_unnamed_env (tool_calls_map (fold stream_step ex_unnamed_chunks init_stream)) =
     [\<lparr>tc_id = py ''call_1'', tc_name = None, arguments = PDict []\<rparr>] \<and>
   stream_chat ex_unnamed_env =
     Inl (Raised True (py ''TypeError'')
            (py ''sequence item 0: expected str instance, NoneType found'')) \<and>
   chat False ex_unnamed_env =
     Inr \<lparr>resp_content =
            Some (py ''Error calling LLM: TypeError: sequence item 0: expected str instance, NoneType found''),
          tool_calls = [], finish_reason = py ''error'', usage = [], reasoning_content = None\<rparr>"
proof -
  have frs: "stream_fragments ex_unnamed_chunks =
     [\<lparr>index = 0, delta_id = Some (py ''call_1''),
       tc_function = Some \<lparr>fn_name = None, fn_arguments = Some (py ''{}'')\<rparr>\<rparr>]"
    by (simp add: ex_unnamed_chunks_def stream_fragments_def chunk_fragments_def)
  have st: "tool_calls_map (fold stream_step ex_unnamed_chunks init_stream) =
      [(0, \<lparr>entry_id = py ''call_1'', entry_name = None, entry_arguments = py ''{}''\<rparr>)]"
    by (simp add: ex_unnamed_chunks_def stream_step_def init_stream_def Let_def
        merge_tool_call_delta_def py_def)
  have built: "build_tool_calls ex_unnamed_env
        (tool_calls_map (fold stream_step ex_unnamed_chunks init_stream)) =
      [\<lparr>tc_id = py ''call_1'', tc_name = None, arguments = PDict []\<rparr>]"
    unfolding st
    by (simp add: build_tool_calls_def decode_arguments_def ex_unnamed_env_def)
  have zero: "str_int 0 = py ''0''"
    by (simp add: str_int_def digits.simps py_def)
  have log: "log_response_summary
        \<lparr>resp_content = c, tool_calls = [\<lparr>tc_id = py ''call_1'', tc_name = None, arguments = PDict []\<rparr>],
         finish_reason = f, usage = u, reasoning_content = r\<rparr> =
      Some (Raised True (py ''TypeError'')
              (py ''sequence item 0: expected str instance, NoneType found''))" for c f u r
    by (simp add: log_response_summary_def has_tool_calls_def join_names_def TypeError_def zero)
      (simp add: py_def)
  have a: "acompletion_stream ex_unnamed_env = Inr ex_unnamed_chunks"
    by (simp add: ex_unnamed_env_def)
  have stream: "stream_chat ex_unnamed_env =
     Inl (Raised True (py ''TypeError'')
            (py ''sequence item 0: expected str instance, NoneType found''))"
    unfolding stream_chat_def a
    by (simp add: Let_def built log)
  have non_stream: "non_stream_chat ex_unnamed_env =
      Inl (Raised True (py ''RuntimeError'') (py ''primary request failed''))"
    by (simp add: non_stream_chat_def ex_unnamed_env_def)
  have fmt: "format_exception (Raised True (py ''TypeError'')
            (py ''sequence item 0: expected str instance, NoneType found'')) =
      py ''TypeError: sequence item 0: expected str instance, NoneType found''"
    by (simp add: format_exception_def strip_def lstrip_def rstrip_def is_space_def py_def)
  have chat: "chat False ex_unnamed_env =
     Inr \<lparr>resp_content =
            Some (py ''Error calling LLM: TypeError: sequence item 0: expected str instance, NoneType found''),
          tool_calls = [], finish_reason = py ''error'', usage = [], reasoning_content = None\<rparr>"
    unfolding chat_def stream non_stream
    by (simp add: fmt) (simp add: py_def)
  show ?thesis
    using frs built stream chat by simp
qed

section \<open>Properties of the agent loop\<close>

text \<open>
  Claim C2. For a session whose watermark is not negative (part of the session invariant
  \<open>0 \<le> last_consolidated \<le> len(messages)\<close>), \<open>_should_schedule_consolidation\<close> answers
  exactly what the trigger policy says: with \<open>keep = max(1, memory_window / 2)\<close>,
  \<open>compress_end = total - keep\<close> and \<open>delta = compress_end - last_consolidated\<close>, it is true
  when \<open>delta > 0\<close> and \<open>delta \<ge> 30\<close>, or \<open>delta \<ge> compression_window_size\<close>, or at least
  fifteen minutes have passed since \<open>last_consolidated_at\<close>. The window size may be read as
  the stored attribute or as the configured value: below \<open>delta > 0\<close> they decide the same.
\<close>

theorem should_schedule_consolidation_policy:
  assumes "0 \<le> last_consolidated session"
  shows "should_schedule_consolidation clock self session =
           consolidation_fires (memory_window self) (compression_window_size self)
             (int (length (messages session))) (last_consolidated session)
             (parse_iso_datetime clock (last_consolidated_at session)) (now clock) \<and>
         should_schedule_consolidation clock (AgentLoop_init iters window compression) session =
           consolidation_fires window compression
             (int (length (messages session))) (last_consolidated session)
             (parse_iso_datetime clock (last_consolidated_at session)) (now clock)"
proof -
  have general: "should_schedule_consolidation clock a session =
      consolidation_fires (memory_window a) (compression_window_size a)
        (int (length (messages session))) (last_consolidated session)
        (parse_iso_datetime clock (last_consolidated_at session)) (now clock)" for a
    using assms
    unfolding should_schedule_consolidation_def consolidation_fires_def
      compression_keep_count_def total_seconds_ge_def CONSOLIDATION_HARD_LIMIT_def
      CONSOLIDATION_COOLDOWN_S_def Let_def
    by (cases "parse_iso_datetime clock (last_consolidated_at session)") auto
  have configured: "consolidation_fires window (max 1 compression) n w since current =
      consolidation_fires window compression n w since current" for n w since current
    unfolding consolidation_fires_def Let_def by auto
  show ?thesis
    using general [of self] general [of "AgentLoop_init iters window compression"] configured
    by (simp add: AgentLoop_init_def)
qed

theorem should_schedule_consolidation_policy_witness:
  "0 \<le> last_consolidated (ex_session 40 10) \<and>
   should_schedule_consolidation ex_clock (AgentLoop_init 50 50 12) (ex_session 40 10) \<and>
   consolidation_fires 50 12 40 10 (Some 0) 1000000000 \<and>
   \<not> should_schedule_consolidation ex_clock (AgentLoop_init 50 50 12) (ex_session 40 15)"
  using should_schedule_consolidation_policy [of "ex_session 40 10" ex_clock
      "AgentLoop_init 50 50 12" 50 50 12]
    should_schedule_consolidation_policy [of "ex_session 40 15" ex_clock
      "AgentLoop_init 50 50 12" 50 50 12]
  by (simp add: ex_session_def ex_clock_def AgentLoop_init_def consolidation_fires_def
      parse_iso_datetime_def py_def)

lemma run_tool_call_final: "final_content (run_tool_call env tc st) = final_content st"
  by (simp add: run_tool_call_def Let_def)

lemma fold_run_tool_call_final:
  "final_content (fold (run_tool_call env) tcs st) = final_content st"
  by (induction tcs arbitrary: st) (simp_all add: run_tool_call_final)

lemma tool_calls_branch_final:
  "final_content (tool_calls_branch env response st) = final_content st"
  by (simp add: tool_calls_branch_def Let_def fold_run_tool_call_final)

lemma loop_all_tool_calls:
  assumes calls: "\<forall>i msgs. 1 \<le> i \<and> int i \<le> max_iterations self \<longrightarrow>
       (\<exists>r. provider_chat env i msgs = Inr r \<and> has_tool_calls r)"
  shows "final_content st = None \<Longrightarrow> 0 \<le> iteration st \<Longrightarrow>
     \<exists>st'. agent_loop_while env self st = Inr st' \<and> final_content st' = None \<and>
       (if iteration st < max_iterations self
        then \<exists>msgs r. provider_chat env (nat (max_iterations self)) msgs = Inr r \<and>
               last_finish_reason st' = finish_reason_or_unknown r
        else last_finish_reason st' = last_finish_reason st)"
  using calls
proof (induction env self st rule: agent_loop_while.induct)
  case (1 env self st)
  show ?case
  proof (cases "iteration st < max_iterations self")
    case False
    then show ?thesis
      using "1.prems"(1) by (simp add: agent_loop_while.simps)
  next
    case True
    let ?i = "nat (iteration st + 1)"
    have range: "1 \<le> ?i \<and> int ?i \<le> max_iterations self"
      using True "1.prems"(2) by simp
    then obtain r where r: "provider_chat env ?i (loop_messages st) = Inr r" "has_tool_calls r"
      using "1.prems"(3) by blast
    let ?st1 = "(tool_calls_branch env r st)
                  \<lparr>iteration := iteration st + 1,
                   last_finish_reason := finish_reason_or_unknown r\<rparr>"
    have unfold: "agent_loop_while env self st = agent_loop_while env self ?st1"
      using True r by (subst agent_loop_while.simps) simp
    have fc: "final_content ?st1 = None"
      using "1.prems"(1) by (simp add: tool_calls_branch_final)
    have it: "0 \<le> iteration ?st1"
      using "1.prems"(2) by simp
    obtain st' where st': "agent_loop_while env self ?st1 = Inr st'" "final_content st' = None"
      "if iteration ?st1 < max_iterations self
       then \<exists>msgs r. provider_chat env (nat (max_iterations self)) msgs = Inr r \<and>
              last_finish_reason st' = finish_reason_or_unknown r
       else last_finish_reason st' = last_finish_reason ?st1"
      using "1.IH" [OF True r(1) r(2) fc it "1.prems"(3)] by blast
    have last: "\<exists>msgs r. provider_chat env (nat (max_iterations self)) msgs = Inr r \<and>
              last_finish_reason st' = finish_reason_or_unknown r"
    proof (cases "iteration ?st1 < max_iterations self")
      case True
      with st'(3) show ?thesis by simp
    next
      case False
      then have eq: "iteration st + 1 = max_iterations self"
        using True by simp
      have "last_finish_reason st' = finish_reason_or_unknown r"
        using st'(3) False by simp
      moreover have "provider_chat env (nat (max_iterations self)) (loop_messages st) = Inr r"
        using r(1) eq by simp
      ultimately show ?thesis by blast
    qed
    show ?thesis
      using True unfold st'(1,2) last by simp
  qed
qed

text \<open>
  Claim C8. If every call of the provider during the \<open>max_iterations\<close> iterations returns a
  response that carries tool calls, \<open>_run_agent_loop\<close> returns (it does not raise), and its
  final content is the iteration-limit text, which names the configured cap and the last
  finish reason seen: that of the response of the last iteration (\<open>unknown\<close> when that one
  is empty, or when the cap allows no iteration at all).
\<close>

theorem run_agent_loop_iteration_cap:
  assumes "\<forall>i msgs. 1 \<le> i \<and> int i \<le> max_iterations self \<longrightarrow>
       (\<exists>r. provider_chat env i msgs = Inr r \<and> has_tool_calls r)"
  shows "\<exists>reason log.
     run_agent_loop env self initial_messages =
       Inr (py ''I stopped before a final response because the tool-call loop hit the iteration limit (''
            @ str_int (max_iterations self) @ py ''). Last finish_reason='' @ reason
            @ py ''. Please retry with a narrower request or increase agents.defaults.max_tool_iterations.'',
            reason, log) \<and>
     (if 0 < max_iterations self
      then \<exists>msgs r. provider_chat env (nat (max_iterations self)) msgs = Inr r \<and>
             reason = (if finish_reason r \<noteq> [] then finish_reason r else py ''unknown'')
      else reason = py ''unknown'')"
proof -
  have "final_content (init_loop initial_messages) = None"
    and "0 \<le> iteration (init_loop initial_messages)"
    by (simp_all add: init_loop_def)
  from loop_all_tool_calls [OF assms this]
  obtain st' where st': "agent_loop_while env self (init_loop initial_messages) = Inr st'"
    "final_content st' = None"
    "if iteration (init_loop initial_messages) < max_iterations self
     then \<exists>msgs r. provider_chat env (nat (max_iterations self)) msgs = Inr r \<and>
            last_finish_reason st' = finish_reason_or_unknown r
     else last_finish_reason st' = last_finish_reason (init_loop initial_messages)"
    by blast
  have run: "run_agent_loop env self initial_messages =
      Inr (iteration_limit_message (max_iterations self) (last_finish_reason st'),
           last_finish_reason st', tool_use_log st')"
    using st'(1,2) by (simp add: run_agent_loop_def)
  have msg: "iteration_limit_message cap reason =
      py ''I stopped before a final response because the tool-call loop hit the iteration limit (''
      @ str_int cap @ py ''). Last finish_reason='' @ reason
      @ py ''. Please retry with a narrower request or increase agents.defaults.max_tool_iterations.''"
    for cap reason
    by (simp add: iteration_limit_message_def py_def)
  have reason: "if 0 < max_iterations self
      then \<exists>msgs r. provider_chat env (nat (max_iterations self)) msgs = Inr r \<and>
             last_finish_reason st' = (if finish_reason r \<noteq> [] then finish_reason r else py ''unknown'')
      else last_finish_reason st' = py ''unknown''"
  proof (cases "0 < max_iterations self")
    case True
    then obtain msgs r where "provider_chat env (nat (max_iterations self)) msgs = Inr r"
      "last_finish_reason st' = finish_reason_or_unknown r"
      using st'(3) by (auto simp: init_loop_def)
    then have "provider_chat env (nat (max_iterations self)) msgs = Inr r \<and>
        last_finish_reason st' = (if finish_reason r \<noteq> [] then finish_reason r else py ''unknown'')"
      by (simp add: finish_reason_or_unknown_def)
    then show ?thesis
      using True by (simp only: if_True) blast
  next
    case False
    then show ?thesis
      using st'(3) by (simp add: init_loop_def)
  qed
  show ?thesis
    using run reason unfolding msg by blast
qed

theorem run_agent_loop_iteration_cap_witness:
  "has_tool_calls ex_tool_response \<and>
   (case run_agent_loop ex_agent_env (AgentLoop_init 2 50 12) [] of
      Inl e \<Rightarrow> False
    | Inr res \<Rightarrow>
        fst res = py ''I stopped before a final response because the tool-call loop hit the iteration limit (2). Last finish_reason=tool_calls. Please retry with a narrower request or increase agents.defaults.max_tool_iterations.''
        \<and> fst (snd res) = py ''tool_calls'')"
proof -
  have tc: "has_tool_calls ex_tool_response"
    by (simp add: has_tool_calls_def ex_tool_response_def)
  have hyp: "\<forall>i msgs. 1 \<le> i \<and> int i \<le> max_iterations (AgentLoop_init 2 50 12) \<longrightarrow>
       (\<exists>r. provider_chat ex_agent_env i msgs = Inr r \<and> has_tool_calls r)"
    using tc by (simp add: ex_agent_env_def)
  have two: "str_int 2 = py ''2''"
    by (simp add: str_int_def digits.simps py_def)
  have cap: "max_iterations (AgentLoop_init 2 50 12) = 2"
    by (simp add: AgentLoop_init_def)
  have fr: "provider_chat ex_agent_env i msgs = Inr r \<Longrightarrow> finish_reason r = py ''tool_calls''"
    for i msgs r
    by (auto simp: ex_agent_env_def ex_tool_response_def)
  obtain reason log where res:
    "run_agent_loop ex_agent_env (AgentLoop_init 2 50 12) [] =
       Inr (py ''I stopped before a final response because the tool-call loop hit the iteration limit (''
            @ str_int 2 @ py ''). Last finish_reason='' @ reason
            @ py ''. Please retry with a narrower request or increase agents.defaults.max_tool_iterations.'',
            reason, log)"
    and "\<exists>msgs r. provider_chat ex_agent_env (nat 2) msgs = Inr r \<and>
             reason = (if finish_reason r \<noteq> [] then finish_reason r else py ''unknown'')"
    using run_agent_loop_iteration_cap [OF hyp, of "[]"] unfolding cap by auto
  then have "reason = py ''tool_calls''"
    using fr by (auto simp: py_def)
  then show ?thesis
    using tc res two by (simp add: py_def)
qed

subsection \<open>The SILENT marker\<close>

lemma length_SILENT: "length SILENT = 8"
  by (simp add: SILENT_def py_def)

lemma silent_match_here_iff:
  "silent_match_here t = (\<exists>tail. t = SILENT @ tail \<and> list_all silent_class tail)"
proof
  assume "silent_match_here t"
  then have "take (length SILENT) t = SILENT" "list_all silent_class (drop (length SILENT) t)"
    by (simp_all add: silent_match_here_def startswith_def)
  then have "t = SILENT @ drop (length SILENT) t \<and> list_all silent_class (drop (length SILENT) t)"
    by (metis append_take_drop_id)
  then show "\<exists>tail. t = SILENT @ tail \<and> list_all silent_class tail" by blast
next
  assume "\<exists>tail. t = SILENT @ tail \<and> list_all silent_class tail"
  then show "silent_match_here t"
    by (auto simp: silent_match_here_def startswith_def)
qed

lemma silent_search_None_iff:
  "(silent_search s = None) = (\<not> (\<exists>pre t. s = pre @ t \<and> silent_match_here t))"
proof (induction s)
  case Nil
  show ?case
    by (simp add: silent_match_here_def startswith_def length_SILENT) (simp add: SILENT_def py_def)
next
  case (Cons c cs)
  have split: "(\<exists>pre t. c # cs = pre @ t \<and> silent_match_here t) =
      (silent_match_here (c # cs) \<or> (\<exists>pre t. cs = pre @ t \<and> silent_match_here t))"
  proof
    assume "\<exists>pre t. c # cs = pre @ t \<and> silent_match_here t"
    then obtain pre t where pt: "c # cs = pre @ t" "silent_match_here t" by blast
    show "silent_match_here (c # cs) \<or> (\<exists>pre t. cs = pre @ t \<and> silent_match_here t)"
    proof (cases pre)
      case Nil
      with pt show ?thesis by simp
    next
      case (Cons p ps)
      with pt have "cs = ps @ t" by simp
      with pt(2) show ?thesis by blast
    qed
  next
    assume "silent_match_here (c # cs) \<or> (\<exists>pre t. cs = pre @ t \<and> silent_match_here t)"
    then show "\<exists>pre t. c # cs = pre @ t \<and> silent_match_here t"
    proof
      assume "silent_match_here (c # cs)"
      then have "c # cs = [] @ (c # cs) \<and> silent_match_here (c # cs)" by simp
      then show ?thesis by blast
    next
      assume "\<exists>pre t. cs = pre @ t \<and> silent_match_here t"
      then obtain pre t where "cs = pre @ t" "silent_match_here t" by blast
      then have "c # cs = (c # pre) @ t \<and> silent_match_here t" by simp
      then show ?thesis by blast
    qed
  qed
  show ?case
    unfolding split using Cons.IH by simp
qed

lemma silent_search_None_ends:
  "(silent_search s = None) = (\<not> ends_with_sentinel s)"
  unfolding silent_search_None_iff ends_with_sentinel_def silent_match_here_iff SILENT_def
  by blast

lemma strip_silent_loop_unmatched: "silent_search (strip_silent_loop s) = None"
proof (induction s rule: strip_silent_loop.induct)
  case (1 cleaned)
  show ?case
  proof (cases "silent_search cleaned")
    case None
    then show ?thesis by (simp add: strip_silent_loop.simps)
  next
    case (Some i)
    then show ?thesis
      using "1.IH" [OF Some] by (simp add: strip_silent_loop.simps)
  qed
qed

lemma is_space_silent_class: "is_space c \<Longrightarrow> silent_class c"
  by (simp add: silent_class_def)

lemma nl_silent_class: "silent_class nl"
  by (simp add: silent_class_def is_space_def nl_def)

lemma last_SILENT: "SILENT \<noteq> [] \<and> \<not> silent_class (last SILENT) \<and> nl \<notin> set SILENT"
  by (simp add: SILENT_def py_def silent_class_def is_space_def nl_def)

lemma ends_lstrip: "ends_with_sentinel (lstrip s) \<Longrightarrow> ends_with_sentinel s"
proof -
  assume "ends_with_sentinel (lstrip s)"
  then obtain pre tail where "lstrip s = pre @ py ''[SILENT]'' @ tail" "list_all silent_class tail"
    by (auto simp: ends_with_sentinel_def)
  moreover have "s = takeWhile is_space s @ lstrip s"
    by (simp add: lstrip_def)
  ultimately have "s = (takeWhile is_space s @ pre) @ py ''[SILENT]'' @ tail \<and> list_all silent_class tail"
    by simp
  then show ?thesis
    unfolding ends_with_sentinel_def by blast
qed

lemma rstrip_decomp: "s = rstrip s @ rev (takeWhile is_space (rev s))"
proof -
  have "rev (rstrip s @ rev (takeWhile is_space (rev s))) = rev s"
    by (simp add: rstrip_def)
  then show ?thesis
    by (metis rev_rev_ident)
qed

lemma ends_rstrip: "ends_with_sentinel (rstrip s) \<Longrightarrow> ends_with_sentinel s"
proof -
  let ?ws = "rev (takeWhile is_space (rev s))"
  assume "ends_with_sentinel (rstrip s)"
  then obtain pre tail where pt: "rstrip s = pre @ py ''[SILENT]'' @ tail" "list_all silent_class tail"
    by (auto simp: ends_with_sentinel_def)
  have "list_all is_space ?ws"
    by (simp add: list_all_iff) (metis set_takeWhileD)
  then have ws: "list_all silent_class ?ws"
    by (auto simp: list_all_iff is_space_silent_class)
  have "s = pre @ py ''[SILENT]'' @ (tail @ ?ws)"
    using rstrip_decomp [of s] pt(1) by simp
  moreover have "list_all silent_class (tail @ ?ws)"
    using pt(2) ws by simp
  ultimately show ?thesis
    unfolding ends_with_sentinel_def by blast
qed

lemma ends_strip: "ends_with_sentinel (strip s) \<Longrightarrow> ends_with_sentinel s"
  unfolding strip_def by (blast dest: ends_lstrip ends_rstrip)

lemma takeWhile_append_keep:
  "dropWhile P xs \<noteq> [] \<or> ys = [] \<or> \<not> P (hd ys) \<Longrightarrow>
     takeWhile P (xs @ ys) = takeWhile P xs \<and> dropWhile P (xs @ ys) = dropWhile P xs @ ys"
proof (induction xs)
  case Nil
  then show ?case by (cases ys) auto
next
  case (Cons x xs)
  then show ?case by (cases "P x") auto
qed

lemma collapse_append_right:
  "ys = [] \<or> hd ys \<noteq> nl \<Longrightarrow>
     collapse_newlines (xs @ ys) = collapse_newlines xs @ collapse_newlines ys"
proof (induction xs rule: collapse_newlines.induct)
  case 1
  show ?case by simp
next
  case (2 c cs)
  show ?case
  proof (cases "c = nl")
    case True
    have split: "takeWhile (\<lambda>x. x = nl) (cs @ ys) = takeWhile (\<lambda>x. x = nl) cs \<and>
        dropWhile (\<lambda>x. x = nl) (cs @ ys) = dropWhile (\<lambda>x. x = nl) cs @ ys"
      using "2.prems" by (intro takeWhile_append_keep) auto
    show ?thesis
      using True split "2.IH"(1) [OF True "2.prems"] by simp
  next
    case False
    then show ?thesis
      using "2.IH"(2) [OF False "2.prems"] by simp
  qed
qed

lemma collapse_append_left:
  "xs = [] \<or> last xs \<noteq> nl \<Longrightarrow>
     collapse_newlines (xs @ ys) = collapse_newlines xs @ collapse_newlines ys"
proof (induction xs rule: collapse_newlines.induct)
  case 1
  show ?case by simp
next
  case (2 c cs)
  show ?case
  proof (cases "c = nl")
    case True
    then have cs: "cs \<noteq> []" "last cs \<noteq> nl"
      using "2.prems" by (auto split: if_splits)
    have drop: "dropWhile (\<lambda>x. x = nl) cs \<noteq> []"
    proof
      assume "dropWhile (\<lambda>x. x = nl) cs = []"
      then have "\<forall>x \<in> set cs. x = nl"
        by (simp add: dropWhile_eq_Nil_conv)
      moreover have "last cs \<in> set cs"
        using cs(1) by simp
      ultimately show False
        using cs(2) by blast
    qed
    have "last (takeWhile (\<lambda>x. x = nl) cs @ dropWhile (\<lambda>x. x = nl) cs)
        = last (dropWhile (\<lambda>x. x = nl) cs)"
      using drop by (rule last_appendR)
    then have last: "last (dropWhile (\<lambda>x. x = nl) cs) \<noteq> nl"
      using cs(2) by simp
    have split: "takeWhile (\<lambda>x. x = nl) (cs @ ys) = takeWhile (\<lambda>x. x = nl) cs \<and>
        dropWhile (\<lambda>x. x = nl) (cs @ ys) = dropWhile (\<lambda>x. x = nl) cs @ ys"
      using drop by (intro takeWhile_append_keep) auto
    show ?thesis
      using True split "2.IH"(1) [OF True] last by simp
  next
    case False
    have "cs = [] \<or> last cs \<noteq> nl"
      using "2.prems" by (auto split: if_splits)
    then show ?thesis
      using False "2.IH"(2) [OF False] by simp
  qed
qed

lemma set_collapse: "set (collapse_newlines s) \<subseteq> set s"
proof (induction s rule: collapse_newlines.induct)
  case 1
  show ?case by simp
next
  case (2 c cs)
  show ?case
  proof (cases "c = nl")
    case True
    have "set (takeWhile (\<lambda>x. x = nl) cs) \<subseteq> set cs"
      by (auto dest: set_takeWhileD)
    moreover have "set (dropWhile (\<lambda>x. x = nl) cs) \<subseteq> set cs"
      by (auto dest: set_dropWhileD)
    ultimately show ?thesis
      using True "2.IH"(1) [OF True] by auto
  next
    case False
    then show ?thesis
      using "2.IH"(2) [OF False] by auto
  qed
qed

lemma collapse_all_newlines:
  "s \<noteq> [] \<Longrightarrow> \<forall>x \<in> set s. x = nl \<Longrightarrow>
     collapse_newlines s \<noteq> [] \<and> last (collapse_newlines s) = nl"
proof -
  assume ne: "s \<noteq> []" and all: "\<forall>x \<in> set s. x = nl"
  then obtain c cs where s: "s = c # cs" by (cases s) auto
  have c: "c = nl" and cs: "\<forall>x \<in> set cs. x = nl"
    using all s by auto
  have tw: "takeWhile (\<lambda>x. x = nl) cs = cs" "dropWhile (\<lambda>x. x = nl) cs = []"
    using cs by (simp_all add: takeWhile_eq_all_conv dropWhile_eq_Nil_conv)
  show ?thesis
  proof (cases "2 \<le> length cs")
    case True
    then show ?thesis by (simp add: s c tw)
  next
    case False
    then have eq: "collapse_newlines s = nl # cs"
      by (simp add: s c tw)
    have "last (nl # cs) = nl"
      using cs by (cases cs rule: rev_cases) auto
    then show ?thesis
      unfolding eq by simp
  qed
qed

lemma collapse_snoc_newline:
  "collapse_newlines (a @ [nl]) \<noteq> [] \<and> last (collapse_newlines (a @ [nl])) = nl"
proof -
  define run where "run = rev (takeWhile (\<lambda>x. x = nl) (rev (a @ [nl])))"
  define pre where "pre = rev (dropWhile (\<lambda>x. x = nl) (rev (a @ [nl])))"
  have dec: "a @ [nl] = pre @ run"
  proof -
    have "rev (pre @ run) = rev (a @ [nl])"
      unfolding pre_def run_def
      using takeWhile_dropWhile_id [of "\<lambda>x. x = nl" "rev (a @ [nl])"]
      by (simp only: rev_append rev_rev_ident)
    then show ?thesis
      by (simp only: rev_is_rev_conv)
  qed
  have run_ne: "run \<noteq> []"
    by (simp add: run_def)
  have run_all: "\<forall>x \<in> set run. x = nl"
    by (auto simp: run_def dest: set_takeWhileD)
  have pre_last: "pre = [] \<or> last pre \<noteq> nl"
  proof (cases "dropWhile (\<lambda>x. x = nl) (rev (a @ [nl]))")
    case Nil
    then show ?thesis by (simp add: pre_def)
  next
    case (Cons y ys)
    then have "\<not> (y = nl)"
      by (simp add: dropWhile_eq_Cons_conv)
    then show ?thesis
      unfolding pre_def Cons by simp
  qed
  have "collapse_newlines (pre @ run) = collapse_newlines pre @ collapse_newlines run"
    using pre_last by (rule collapse_append_left)
  then show ?thesis
    unfolding dec using collapse_all_newlines [OF run_ne run_all] by simp
qed

lemma collapse_suffix_word:
  "nl \<notin> set w \<Longrightarrow> collapse_newlines a = x @ w \<Longrightarrow>
     \<exists>a'. a = a' @ w \<and> collapse_newlines a' = x"
proof (induction w arbitrary: a x rule: rev_induct)
  case Nil
  then show ?case by simp
next
  case (snoc c w)
  have c: "c \<noteq> nl" and w: "nl \<notin> set w"
    using snoc.prems(1) by auto
  have "a \<noteq> []"
    using snoc.prems(2) by auto
  then obtain b d where a: "a = b @ [d]"
    by (metis rev_exhaust)
  have d: "d \<noteq> nl"
  proof
    assume "d = nl"
    then have "last (collapse_newlines a) = nl"
      using collapse_snoc_newline [of b] a by simp
    then show False
      using snoc.prems(2) c by simp
  qed
  have "collapse_newlines a = collapse_newlines b @ [d]"
    using collapse_append_right [of "[d]" b] d a by simp
  then have eq: "collapse_newlines b = x @ w" "d = c"
    using snoc.prems(2) by auto
  from snoc.IH [OF w eq(1)] obtain b' where "b = b' @ w" "collapse_newlines b' = x"
    by blast
  then have "a = b' @ (w @ [c]) \<and> collapse_newlines b' = x"
    using a eq(2) by simp
  then show ?case by blast
qed

lemma before_trailing_unique:
  assumes "list_all silent_class v" and "u = [] \<or> \<not> silent_class (last u)"
  shows "before_trailing (u @ v) = u"
proof -
  have v: "\<And>x. x \<in> set (rev v) \<Longrightarrow> silent_class x"
    using assms(1) by (simp add: list_all_iff)
  have "dropWhile silent_class (rev v @ rev u) = dropWhile silent_class (rev u)"
    using v by (rule dropWhile_append2)
  moreover have "dropWhile silent_class (rev u) = rev u"
  proof (cases u rule: rev_cases)
    case Nil
    then show ?thesis by simp
  next
    case (snoc ys y)
    then show ?thesis
      using assms(2) by simp
  qed
  ultimately show ?thesis
    by (simp add: before_trailing_def)
qed

lemma before_trailing_decomp:
  "\<exists>t. s = before_trailing s @ t \<and> list_all silent_class t \<and>
     (before_trailing s = [] \<or> \<not> silent_class (last (before_trailing s)))"
proof -
  define t where "t = rev (takeWhile silent_class (rev s))"
  have "rev (before_trailing s @ t) = rev s"
    unfolding before_trailing_def t_def
    using takeWhile_dropWhile_id [of silent_class "rev s"]
    by (simp only: rev_append rev_rev_ident)
  then have dec: "s = before_trailing s @ t"
    by (simp only: rev_is_rev_conv)
  have all: "list_all silent_class t"
    by (auto simp: t_def list_all_iff dest: set_takeWhileD)
  have last: "before_trailing s = [] \<or> \<not> silent_class (last (before_trailing s))"
  proof (cases "dropWhile silent_class (rev s)")
    case Nil
    then show ?thesis by (simp add: before_trailing_def)
  next
    case (Cons y ys)
    then have "\<not> silent_class y"
      by (simp add: dropWhile_eq_Cons_conv)
    then show ?thesis
      unfolding before_trailing_def Cons by simp
  qed
  show ?thesis
    using dec all last by blast
qed

lemma ends_with_sentinel_before:
  "ends_with_sentinel s = (\<exists>pre. before_trailing s = pre @ SILENT)"
proof
  assume "ends_with_sentinel s"
  then obtain pre tail where s: "s = pre @ SILENT @ tail" and tail: "list_all silent_class tail"
    by (auto simp: ends_with_sentinel_def SILENT_def)
  have "\<not> silent_class (last (pre @ SILENT))"
    using last_SILENT by simp
  then have "before_trailing ((pre @ SILENT) @ tail) = pre @ SILENT"
    using tail by (intro before_trailing_unique) auto
  then show "\<exists>pre. before_trailing s = pre @ SILENT"
    using s by auto
next
  assume "\<exists>pre. before_trailing s = pre @ SILENT"
  then obtain pre where pre: "before_trailing s = pre @ SILENT" by blast
  obtain t where "s = before_trailing s @ t" "list_all silent_class t"
    using before_trailing_decomp [of s] by blast
  then have "s = pre @ py ''[SILENT]'' @ t \<and> list_all silent_class t"
    using pre by (simp add: SILENT_def)
  then show "ends_with_sentinel s"
    unfolding ends_with_sentinel_def by blast
qed

lemma collapse_last:
  "a \<noteq> [] \<Longrightarrow> last a \<noteq> nl \<Longrightarrow>
     collapse_newlines a \<noteq> [] \<and> last (collapse_newlines a) = last a"
proof -
  assume "a \<noteq> []" "last a \<noteq> nl"
  then obtain b where a: "a = b @ [last a]"
    by (metis append_butlast_last_id)
  have "collapse_newlines (b @ [last a]) = collapse_newlines b @ collapse_newlines [last a]"
    using \<open>last a \<noteq> nl\<close> by (intro collapse_append_right) simp
  then have "collapse_newlines a = collapse_newlines b @ [last a]"
    using a \<open>last a \<noteq> nl\<close> by simp
  then show ?thesis by simp
qed

lemma ends_collapse:
  assumes "ends_with_sentinel (collapse_newlines s)"
  shows "ends_with_sentinel s"
proof -
  define a where "a = before_trailing s"
  obtain t where s: "s = a @ t" and t: "list_all silent_class t"
    and a: "a = [] \<or> \<not> silent_class (last a)"
    using before_trailing_decomp [of s] unfolding a_def by blast
  have anl: "a = [] \<or> last a \<noteq> nl"
    using a nl_silent_class by auto
  have col: "collapse_newlines s = collapse_newlines a @ collapse_newlines t"
    unfolding s using anl by (rule collapse_append_left)
  have ct: "list_all silent_class (collapse_newlines t)"
    using t set_collapse [of t] by (auto simp: list_all_iff)
  have ca: "collapse_newlines a = [] \<or> \<not> silent_class (last (collapse_newlines a))"
  proof (cases "a = []")
    case True
    then show ?thesis by simp
  next
    case False
    then have "last a \<noteq> nl" "\<not> silent_class (last a)"
      using anl a by auto
    then show ?thesis
      using collapse_last [OF False] by simp
  qed
  have "before_trailing (collapse_newlines s) = collapse_newlines a"
    unfolding col using ct ca by (rule before_trailing_unique)
  then obtain pre where "collapse_newlines a = pre @ SILENT"
    using assms by (auto simp: ends_with_sentinel_before)
  then obtain a' where "a = a' @ SILENT"
    using collapse_suffix_word [of SILENT a pre] last_SILENT by blast
  then have "before_trailing s = a' @ SILENT"
    by (simp add: a_def)
  then show ?thesis
    by (auto simp: ends_with_sentinel_before)
qed

lemma strip_silent_marker_unmatched:
  "strip_silent_marker c = Some r \<Longrightarrow> silent_search r = None"
proof -
  assume a: "strip_silent_marker c = Some r"
  then obtain s where s: "c = Some s"
    by (cases c) (auto simp: strip_silent_marker_def)
  show ?thesis
  proof (cases "silent_search s = None")
    case True
    then show ?thesis
      using a s by (simp add: strip_silent_marker_def)
  next
    case False
    have "strip_silent_marker (Some s) = Some (strip (collapse_newlines (strip_silent_loop s)))"
      unfolding strip_silent_marker_def using False by (simp only: option.case if_False)
    then have r: "r = strip (collapse_newlines (strip_silent_loop s))"
      using a s by simp
    have "\<not> ends_with_sentinel (strip_silent_loop s)"
      using strip_silent_loop_unmatched [of s] by (simp add: silent_search_None_ends)
    then have "\<not> ends_with_sentinel r"
      unfolding r by (blast dest: ends_strip ends_collapse)
    then show ?thesis
      by (simp add: silent_search_None_ends)
  qed
qed

text \<open>
  Stripping the SILENT marker twice is stripping it once, and a text that does not end in
  the sentinel \<open>[SILENT]\<close> followed by nothing but characters of the class of
  \<open>_SILENT_TRAILING_RE\<close>, as the source file holds it, is returned unchanged (as is \<open>None\<close>).
\<close>

theorem strip_silent_marker_idempotent:
  "strip_silent_marker (strip_silent_marker c) = strip_silent_marker c \<and>
   (\<forall>s. \<not> (\<exists>pre tail. s = pre @ py ''[SILENT]'' @ tail \<and> list_all silent_class tail) \<longrightarrow>
        strip_silent_marker (Some s) = Some s) \<and>
   strip_silent_marker None = None"
proof -
  have idem: "strip_silent_marker (strip_silent_marker c) = strip_silent_marker c"
  proof (cases "strip_silent_marker c")
    case None
    then show ?thesis by (simp add: strip_silent_marker_def)
  next
    case (Some r)
    then have "silent_search r = None"
      by (rule strip_silent_marker_unmatched)
    then show ?thesis
      using Some by (simp add: strip_silent_marker_def)
  qed
  have off: "strip_silent_marker (Some s) = Some s"
    if "\<not> (\<exists>pre tail. s = pre @ py ''[SILENT]'' @ tail \<and> list_all silent_class tail)" for s
  proof -
    from that have "\<not> ends_with_sentinel s"
      by (simp add: ends_with_sentinel_def)
    then have "silent_search s = None"
      by (simp add: silent_search_None_ends)
    then show ?thesis
      by (simp add: strip_silent_marker_def)
  qed
  show ?thesis
    using idem off by (simp add: strip_silent_marker_def)
qed

theorem strip_silent_marker_idempotent_witness:
  "\<not> (\<exists>pre tail. py ''Acknowledged.'' = pre @ py ''[SILENT]'' @ tail \<and> list_all silent_class tail) \<and>
   strip_silent_marker (Some (py ''Acknowledged.'')) = Some (py ''Acknowledged.'') \<and>
   strip_silent_marker (Some (py ''Acknowledged. [SILENT]'')) = Some (py ''Acknowledged.'') \<and>
   strip_silent_marker (strip_silent_marker (Some (py ''Acknowledged. [SILENT]'')))
     = Some (py ''Acknowledged.'')"
proof -
  have none: "silent_search (py ''Acknowledged.'') = None"
    by (simp add: py_def silent_match_here_def startswith_def SILENT_def)
  have none2: "silent_search (py ''Acknowledged. '') = None"
    by (simp add: py_def silent_match_here_def startswith_def SILENT_def)
  have some: "silent_search (py ''Acknowledged. [SILENT]'') = Some 14"
    by (simp add: py_def silent_match_here_def startswith_def SILENT_def)
  have off: "\<not> (\<exists>pre tail. py ''Acknowledged.'' = pre @ py ''[SILENT]'' @ tail \<and> list_all silent_class tail)"
    using none unfolding silent_search_None_ends ends_with_sentinel_def by simp
  have take: "take 14 (py ''Acknowledged. [SILENT]'') = py ''Acknowledged. ''"
    by (simp add: py_def)
  have loop: "strip_silent_loop (py ''Acknowledged. [SILENT]'') = py ''Acknowledged. ''"
    by (subst strip_silent_loop.simps, simp add: some take, subst strip_silent_loop.simps)
      (simp add: none2)
  have col: "collapse_newlines (py ''Acknowledged. '') = py ''Acknowledged. ''"
    by (simp add: py_def nl_def)
  have str: "strip (py ''Acknowledged. '') = py ''Acknowledged.''"
    by (simp add: strip_def lstrip_def rstrip_def is_space_def py_def)
  have once: "strip_silent_marker (Some (py ''Acknowledged. [SILENT]'')) = Some (py ''Acknowledged.'')"
    by (simp add: strip_silent_marker_def some loop col str)
  show ?thesis
    using strip_silent_marker_idempotent [of "Some (py ''Acknowledged. [SILENT]'')"] off once
    by simp
qed

text \<open>
  Claim C7, at a text the code does not leave as claimed. \<open>ok [SILENT]\<close> followed by the
  euro sign does not end in the sentinel followed by whitespace and terminal punctuation
  (the euro sign is neither), yet it is stripped to \<open>ok\<close>: the class of
  \<open>_SILENT_TRAILING_RE\<close> holds U+20AC, one of the code points its mis-encoded CJK marks
  left in the source file. The CJK full stop U+3002 that the class was meant to hold is
  not in it: \<open>ok [SILENT]\<close> followed by U+3002 is returned as it is.
\<close>

theorem strip_silent_marker_symbol_after_sentinel:
  "\<not> (\<exists>pre tail. ex_silent_euro = pre @ py ''[SILENT]'' @ tail \<and>
         list_all (\<lambda>c. is_space c \<or> terminal_punctuation c) tail) \<and>
   strip_silent_marker (Some ex_silent_euro) = Some (py ''ok'') \<and>
   strip_silent_marker (Some (py ''ok [SILENT]'' @ [12290])) = Some (py ''ok [SILENT]'' @ [12290])"
proof -
  have off: "\<not> (\<exists>pre tail. ex_silent_euro = pre @ py ''[SILENT]'' @ tail \<and>
         list_all (\<lambda>c. is_space c \<or> terminal_punctuation c) tail)"
  proof
    assume "\<exists>pre tail. ex_silent_euro = pre @ py ''[SILENT]'' @ tail \<and>
         list_all (\<lambda>c. is_space c \<or> terminal_punctuation c) tail"
    then obtain pre tail where eq: "ex_silent_euro = pre @ py ''[SILENT]'' @ tail"
      and cls: "list_all (\<lambda>c. is_space c \<or> terminal_punctuation c) tail"
      by blast
    have l: "last ex_silent_euro = 8364"
      by (simp add: ex_silent_euro_def)
    show False
    proof (cases "tail = []")
      case True
      then have "ex_silent_euro = (pre @ py ''[SILENT'') @ [93]"
        using eq by (simp add: py_def)
      then have "last ex_silent_euro = 93"
        by (metis last_snoc)
      then show False using l by simp
    next
      case False
      then have "last (pre @ py ''[SILENT]'' @ tail) = last tail"
        by simp
      then have "last tail = 8364"
        using eq l by metis
      then have "8364 \<in> set tail"
        using False last_in_set by metis
      then have "is_space 8364 \<or> terminal_punctuation 8364"
        using cls by (auto simp: list_all_iff)
      then show False
        by (simp add: is_space_def terminal_punctuation_def)
    qed
  qed
  have some: "silent_search ex_silent_euro = Some 3"
    by (simp add: ex_silent_euro_def py_def silent_match_here_def startswith_def SILENT_def
        silent_class_def is_space_def)
  have none: "silent_search (py ''ok '') = None"
    by (simp add: py_def silent_match_here_def startswith_def SILENT_def)
  have take: "take 3 ex_silent_euro = py ''ok ''"
    by (simp add: ex_silent_euro_def py_def)
  have loop: "strip_silent_loop ex_silent_euro = py ''ok ''"
    by (subst strip_silent_loop.simps, simp add: some take, subst strip_silent_loop.simps)
      (simp add: none)
  have col: "collapse_newlines (py ''ok '') = py ''ok ''"
    by (simp add: py_def nl_def)
  have str: "strip (py ''ok '') = py ''ok''"
    by (simp add: strip_def lstrip_def rstrip_def is_space_def py_def)
  have stripped: "strip_silent_marker (Some ex_silent_euro) = Some (py ''ok'')"
    by (simp add: strip_silent_marker_def some loop col str)
  have none2: "silent_search (py ''ok [SILENT]'' @ [12290]) = None"
    by (simp add: py_def silent_match_here_def startswith_def SILENT_def silent_class_def
        is_space_def)
  have kept: "strip_silent_marker (Some (py ''ok [SILENT]'' @ [12290])) = Some (py ''ok [SILENT]'' @ [12290])"
    by (simp add: strip_silent_marker_def none2)
  show ?thesis
    using off stripped kept by simp
qed

section \<open>Properties of the memory consolidation\<close>





























end
